theory Spec2Isabelle
  imports Complex_Main
begin

section \<open>Camera geometry and sampling kernels of \<^verbatim>\<open>lib/utils/utils.py\<close>\<close>

text \<open>
  The tensors of the source are modelled by their shape: a batch is a list, a row of
  three numbers is a triple, a 3x3 or 4x4 matrix is a record of its entries. Numbers are
  exact reals. The rounding of the source's floating-point arithmetic is modelled where
  it decides what the code does next, in the sample counts and the sample coordinates of
  the sampler (\<open>fl64\<close> below); elsewhere it changes the values computed and not the
  path taken, and is left out. Where the source produces a not-a-number or an infinity
  on purpose, the value type \<open>fval\<close> below carries it. Exceptions and process exit are
  values of \<open>error\<close>; text printed to standard output is returned as a list of lines.
\<close>

subsection \<open>Errors and vectors\<close>

datatype error = SystemExit | ValueError | IndexError | KeyError | RuntimeError

type_synonym vec3 = "real \<times> real \<times> real"


text \<open>\<^verbatim>\<open>v.norm(2, 1)\<close> on one row.\<close>

fun norm3 :: "vec3 \<Rightarrow> real" where
  "norm3 (a0, a1, a2) = sqrt (a0\<^sup>2 + a1\<^sup>2 + a2\<^sup>2)"

subsection \<open>Sphere intersection\<close>




subsection \<open>Batched 3x3 inverse\<close>

text \<open>
  A value of a floating-point tensor where the source can produce a non-finite one: a
  finite number, an infinity (of either sign) or not-a-number.
\<close>

datatype fval = Num real | Inf | NaN

text \<open>Division of two finite numbers as the tensor division does it: no exception.\<close>

definition fdiv :: "real \<Rightarrow> real \<Rightarrow> fval" where
  "fdiv a d = (if d = 0 then (if a = 0 then NaN else Inf) else Num (a / d))"

text \<open>One element \<^verbatim>\<open>mat[b]\<close> of a batch of 3x3 matrices; \<open>mIJ\<close> is \<^verbatim>\<open>mat[b, I, J]\<close>.\<close>

record 'a mat3 =
  m00 :: 'a
  m01 :: 'a
  m02 :: 'a
  m10 :: 'a
  m11 :: 'a
  m12 :: 'a
  m20 :: 'a
  m21 :: 'a
  m22 :: 'a

definition map_mat3 :: "('a \<Rightarrow> 'b) \<Rightarrow> 'a mat3 \<Rightarrow> 'b mat3" where
  "map_mat3 f M =
     \<lparr>m00 = f (m00 M), m01 = f (m01 M), m02 = f (m02 M),
      m10 = f (m10 M), m11 = f (m11 M), m12 = f (m12 M),
      m20 = f (m20 M), m21 = f (m21 M), m22 = f (m22 M)\<rparr>"

definition const_mat3 :: "'a \<Rightarrow> 'a mat3" where
  "const_mat3 v =
     \<lparr>m00 = v, m01 = v, m02 = v, m10 = v, m11 = v, m12 = v, m20 = v, m21 = v, m22 = v\<rparr>"

text \<open>The expression assigned to \<^verbatim>\<open>det\<close>, on one batch element.\<close>

definition det3 :: "real mat3 \<Rightarrow> real" where
  "det3 M = m00 M * (m11 M * m22 M - m12 M * m21 M)
          - m01 M * (m10 M * m22 M - m12 M * m20 M)
          + m02 M * (m10 M * m21 M - m11 M * m20 M)"

text \<open>\<^verbatim>\<open>adj\<close> after its nine assignments (each entry of the zero tensor is overwritten).\<close>

definition adj3 :: "real mat3 \<Rightarrow> real mat3" where
  "adj3 M =
     \<lparr>m00 = m11 M * m22 M - m12 M * m21 M,
      m01 = m02 M * m21 M - m01 M * m22 M,
      m02 = m01 M * m12 M - m02 M * m11 M,
      m10 = m12 M * m20 M - m10 M * m22 M,
      m11 = m00 M * m22 M - m02 M * m20 M,
      m12 = m10 M * m02 M - m00 M * m12 M,
      m20 = m10 M * m21 M - m11 M * m20 M,
      m21 = m20 M * m01 M - m00 M * m21 M,
      m22 = m00 M * m11 M - m10 M * m01 M\<rparr>"

text \<open>
  \<^verbatim>\<open>inverse_3x3_batch(mat)\<close>: the printed lines and the returned tensor. The shape
  assertion holds by the type of the argument. \<^verbatim>\<open>adj / det\<close> divides every element,
  the singular ones too; the masked assignment then overwrites those with NaN.
\<close>

definition inverse_3x3_batch :: "real mat3 list \<Rightarrow> string list \<times> fval mat3 list" where
  "inverse_3x3_batch mat =
     (let det = map det3 mat;
          singular_mask = map (\<lambda>d. d = 0) det;
          out = (if list_ex (\<lambda>b. b) singular_mask
                 then [''Warning: Singular matrices found.''] else []);
          adj = map adj3 mat;
          inv_matrices = map2 (\<lambda>a d. map_mat3 (\<lambda>x. fdiv x d) a) adj det;
          inv_matrices = map2 (\<lambda>m s. if s then const_mat3 NaN else m)
                           inv_matrices singular_mask
      in (out, inv_matrices))"

text \<open>
  The words of the specification, for comparison with the code: the matrix product
  \<open>M @ N\<close>, the identity, and the adjugate as the transpose of the cofactor matrix,
  each cofactor a signed 2x2 minor.
\<close>

definition matmul3 :: "real mat3 \<Rightarrow> real mat3 \<Rightarrow> real mat3" where
  "matmul3 A B =
     \<lparr>m00 = m00 A * m00 B + m01 A * m10 B + m02 A * m20 B,
      m01 = m00 A * m01 B + m01 A * m11 B + m02 A * m21 B,
      m02 = m00 A * m02 B + m01 A * m12 B + m02 A * m22 B,
      m10 = m10 A * m00 B + m11 A * m10 B + m12 A * m20 B,
      m11 = m10 A * m01 B + m11 A * m11 B + m12 A * m21 B,
      m12 = m10 A * m02 B + m11 A * m12 B + m12 A * m22 B,
      m20 = m20 A * m00 B + m21 A * m10 B + m22 A * m20 B,
      m21 = m20 A * m01 B + m21 A * m11 B + m22 A * m21 B,
      m22 = m20 A * m02 B + m21 A * m12 B + m22 A * m22 B\<rparr>"

definition eye3 :: "real mat3" where
  "eye3 = \<lparr>m00 = 1, m01 = 0, m02 = 0, m10 = 0, m11 = 1, m12 = 0, m20 = 0, m21 = 0, m22 = 1\<rparr>"

definition entry3 :: "'a mat3 \<Rightarrow> nat \<Rightarrow> nat \<Rightarrow> 'a" where
  "entry3 M i j =
     (if i = 0 then (if j = 0 then m00 M else if j = 1 then m01 M else m02 M)
      else if i = 1 then (if j = 0 then m10 M else if j = 1 then m11 M else m12 M)
      else (if j = 0 then m20 M else if j = 1 then m21 M else m22 M))"

definition others3 :: "nat \<Rightarrow> nat \<times> nat" where
  "others3 i = (if i = 0 then (1, 2) else if i = 1 then (0, 2) else (0, 1))"

definition minor3 :: "real mat3 \<Rightarrow> nat \<Rightarrow> nat \<Rightarrow> real" where
  "minor3 M i j =
     (case (others3 i, others3 j) of
        ((r0, r1), (c0, c1)) \<Rightarrow>
          entry3 M r0 c0 * entry3 M r1 c1 - entry3 M r0 c1 * entry3 M r1 c0)"

definition cofactor3 :: "real mat3 \<Rightarrow> nat \<Rightarrow> nat \<Rightarrow> real" where
  "cofactor3 M i j = (- 1) ^ (i + j) * minor3 M i j"

definition adjugate_spec :: "real mat3 \<Rightarrow> real mat3" where
  "adjugate_spec M =
     \<lparr>m00 = cofactor3 M 0 0, m01 = cofactor3 M 1 0, m02 = cofactor3 M 2 0,
      m10 = cofactor3 M 0 1, m11 = cofactor3 M 1 1, m12 = cofactor3 M 2 1,
      m20 = cofactor3 M 0 2, m21 = cofactor3 M 1 2, m22 = cofactor3 M 2 2\<rparr>"

subsection \<open>Rotation algebra\<close>

type_synonym quat = "real \<times> real \<times> real \<times> real"
type_synonym vec4 = "real \<times> real \<times> real \<times> real"

text \<open>
  \<^verbatim>\<open>F.normalize(v, dim)\<close> with its defaults \<open>p = 2\<close> and \<open>eps = 1e-12\<close>: every
  component is divided by \<open>max(norm, eps)\<close>.
\<close>

definition normalize_eps :: real where
  "normalize_eps = 1 / 10 ^ 12"

fun normalize4 :: "quat \<Rightarrow> quat" where
  "normalize4 (a, b, c, d) =
     (let n = max (sqrt (a\<^sup>2 + b\<^sup>2 + c\<^sup>2 + d\<^sup>2)) normalize_eps
      in (a / n, b / n, c / n, d / n))"

fun normalize3 :: "vec3 \<Rightarrow> vec3" where
  "normalize3 (a, b, c) =
     (let n = max (norm3 (a, b, c)) normalize_eps in (a / n, b / n, c / n))"

text \<open>\<^verbatim>\<open>quat_to_rot(q)\<close> on one batch element; every entry of the ones tensor is overwritten.\<close>

definition quat_to_rot1 :: "quat \<Rightarrow> real mat3" where
  "quat_to_rot1 q =
     (case normalize4 q of
        (qr, qi, qj, qk) \<Rightarrow>
          \<lparr>m00 = 1 - 2 * (qj\<^sup>2 + qk\<^sup>2),
           m01 = 2 * (qj * qi - qk * qr),
           m02 = 2 * (qi * qk + qr * qj),
           m10 = 2 * (qj * qi + qk * qr),
           m11 = 1 - 2 * (qi\<^sup>2 + qk\<^sup>2),
           m12 = 2 * (qj * qk - qi * qr),
           m20 = 2 * (qk * qi - qj * qr),
           m21 = 2 * (qj * qk + qi * qr),
           m22 = 1 - 2 * (qi\<^sup>2 + qj\<^sup>2)\<rparr>)"

definition quat_to_rot :: "quat list \<Rightarrow> real mat3 list" where
  "quat_to_rot q = map quat_to_rot1 q"

text \<open>
  \<^verbatim>\<open>rot_to_quat(R)\<close> on one batch element. The square root of a negative number is
  NaN, and so is everything divided by it; a zero \<open>q[0]\<close> makes the other three
  components non-finite.
\<close>

definition rot_to_quat1 :: "real mat3 \<Rightarrow> fval \<times> fval \<times> fval \<times> fval" where
  "rot_to_quat1 R =
     (if 1 + m00 R + m11 R + m22 R < 0 then (NaN, NaN, NaN, NaN)
      else let q0 = sqrt (1 + m00 R + m11 R + m22 R) / 2
           in (Num q0,
               fdiv (m21 R - m12 R) (4 * q0),
               fdiv (m02 R - m20 R) (4 * q0),
               fdiv (m10 R - m01 R) (4 * q0)))"

definition rot_to_quat :: "real mat3 list \<Rightarrow> (fval \<times> fval \<times> fval \<times> fval) list" where
  "rot_to_quat R = map rot_to_quat1 R"

fun num4 :: "quat \<Rightarrow> fval \<times> fval \<times> fval \<times> fval" where
  "num4 (a, b, c, d) = (Num a, Num b, Num c, Num d)"

fun scale4 :: "real \<Rightarrow> quat \<Rightarrow> quat" where
  "scale4 s (a, b, c, d) = (s * a, s * b, s * c, s * d)"

fun norm4_sq :: "quat \<Rightarrow> real" where
  "norm4_sq (a, b, c, d) = a\<^sup>2 + b\<^sup>2 + c\<^sup>2 + d\<^sup>2"

subsection \<open>Camera ray generator\<close>

text \<open>One element of a batch of 4x4 matrices; \<open>eIJ\<close> is the entry in row I, column J.\<close>

record mat4 =
  e00 :: real
  e01 :: real
  e02 :: real
  e03 :: real
  e10 :: real
  e11 :: real
  e12 :: real
  e13 :: real
  e20 :: real
  e21 :: real
  e22 :: real
  e23 :: real
  e30 :: real
  e31 :: real
  e32 :: real
  e33 :: real

text \<open>
  A pose batch is \<open>B x 7\<close> (quaternion, then location) or \<open>B x 4 x 4\<close>; the source
  tells them apart by \<^verbatim>\<open>pose.shape[1] == 7\<close>.
\<close>

type_synonym vec7 = "real \<times> real \<times> real \<times> real \<times> real \<times> real \<times> real"

datatype pose = Pose7 "vec7 list" | Pose44 "mat4 list"

text \<open>\<^verbatim>\<open>pose[:, :4]\<close> and \<^verbatim>\<open>pose[:, 4:]\<close> on one row.\<close>

fun pose_quat :: "vec7 \<Rightarrow> quat" where
  "pose_quat (qw, qx, qy, qz, tx, ty, tz) = (qw, qx, qy, qz)"

fun pose_loc :: "vec7 \<Rightarrow> vec3" where
  "pose_loc (qw, qx, qy, qz, tx, ty, tz) = (tx, ty, tz)"

definition eye4 :: mat4 where
  "eye4 = \<lparr>e00 = 1, e01 = 0, e02 = 0, e03 = 0,
           e10 = 0, e11 = 1, e12 = 0, e13 = 0,
           e20 = 0, e21 = 0, e22 = 1, e23 = 0,
           e30 = 0, e31 = 0, e32 = 0, e33 = 1\<rparr>"

text \<open>The assignments \<^verbatim>\<open>p[:, :3, :3] = R\<close> and \<^verbatim>\<open>p[:, :3, 3] = cam_loc\<close>.\<close>

definition set_block33 :: "mat4 \<Rightarrow> real mat3 \<Rightarrow> mat4" where
  "set_block33 p R =
     p\<lparr>e00 := m00 R, e01 := m01 R, e02 := m02 R,
       e10 := m10 R, e11 := m11 R, e12 := m12 R,
       e20 := m20 R, e21 := m21 R, e22 := m22 R\<rparr>"

fun set_col3 :: "mat4 \<Rightarrow> vec3 \<Rightarrow> mat4" where
  "set_col3 p (tx, ty, tz) = p\<lparr>e03 := tx, e13 := ty, e23 := tz\<rparr>"

text \<open>\<^verbatim>\<open>pose[:, :3, 3]\<close> on one matrix.\<close>

definition col3 :: "mat4 \<Rightarrow> vec3" where
  "col3 p = (e03 p, e13 p, e23 p)"

text \<open>
  \<^verbatim>\<open>lift(x, y, z, intrinsics)\<close> on one sample of one image. Division by a zero
  focal length gives a non-finite number in the source; the model is meant for
  \<open>fx \<noteq> 0\<close> and \<open>fy \<noteq> 0\<close> only, and the theorems below assume it.
\<close>

definition lift1 :: "real \<Rightarrow> real \<Rightarrow> real \<Rightarrow> mat4 \<Rightarrow> vec4" where
  "lift1 x y z intrinsics =
     (let fx = e00 intrinsics; fy = e11 intrinsics;
          cx = e02 intrinsics; cy = e12 intrinsics; sk = e01 intrinsics;
          x_lift = (x - cx + cy * sk / fy - sk * y / fy) / fx * z;
          y_lift = (y - cy) / fy * z
      in (x_lift, y_lift, z, 1))"

text \<open>One column of \<^verbatim>\<open>torch.bmm(p, pixel_points_cam)\<close>, cut to its first three rows.\<close>

fun world_coord :: "mat4 \<Rightarrow> vec4 \<Rightarrow> vec3" where
  "world_coord p (x, y, z, w) =
     (e00 p * x + e01 p * y + e02 p * z + e03 p * w,
      e10 p * x + e11 p * y + e12 p * z + e13 p * w,
      e20 p * x + e21 p * y + e22 p * z + e23 p * w)"

fun sub3 :: "vec3 \<Rightarrow> vec3 \<Rightarrow> vec3" where
  "sub3 (a0, a1, a2) (b0, b1, b2) = (a0 - b0, a1 - b1, a2 - b2)"

text \<open>The two branches on the pose representation: \<^verbatim>\<open>cam_loc\<close> and \<^verbatim>\<open>p\<close>.\<close>

fun pose_cam_loc :: "pose \<Rightarrow> vec3 list" where
  "pose_cam_loc (Pose7 ps) = map pose_loc ps"
| "pose_cam_loc (Pose44 ms) = map col3 ms"

fun pose_p :: "pose \<Rightarrow> mat4 list" where
  "pose_p (Pose7 ps) =
     map2 (\<lambda>R c. set_col3 (set_block33 eye4 R) c)
       (quat_to_rot (map pose_quat ps)) (map pose_loc ps)"
| "pose_p (Pose44 ms) = ms"

text \<open>
  The intrinsics enter \<^verbatim>\<open>lift\<close> through \<^verbatim>\<open>unsqueeze(-1)\<close> and broadcast against
  the \<open>B x N\<close> pixel coordinates: a batch of one is repeated, any other size than
  \<open>B\<close> is a shape error.
\<close>

definition broadcast_batch :: "'a list \<Rightarrow> nat \<Rightarrow> 'a list option" where
  "broadcast_batch xs b =
     (if length xs = b then Some xs
      else if length xs = 1 then Some (replicate b (hd xs))
      else None)"

text \<open>The direction of one sample before \<^verbatim>\<open>F.normalize\<close>: \<^verbatim>\<open>world_coords - cam_loc\<close>.\<close>

fun ray_dir_raw :: "mat4 \<Rightarrow> vec3 \<Rightarrow> mat4 \<Rightarrow> real \<times> real \<Rightarrow> vec3" where
  "ray_dir_raw p c intrinsics (u, v) =
     sub3 (world_coord p (lift1 u v 1 intrinsics)) c"

text \<open>
  \<^verbatim>\<open>get_camera_params(uv, pose, intrinsics)\<close>: \<open>uv\<close> is \<open>B x N x 2\<close>. The result is
  the pair \<^verbatim>\<open>(ray_dirs, cam_loc)\<close>, \<open>B x N x 3\<close> and \<open>B x 3\<close>. For an empty
  batch \<^verbatim>\<open>uv[:, :, 0].view(batch_size, -1)\<close> raises \<^verbatim>\<open>RuntimeError\<close>: the size
  \<open>-1\<close> of a tensor without elements is ambiguous beside a size 0.
\<close>

definition get_camera_params ::
  "(real \<times> real) list list \<Rightarrow> pose \<Rightarrow> mat4 list \<Rightarrow> error + (vec3 list list \<times> vec3 list)" where
  "get_camera_params uv pose intrinsics =
     (let cam_loc = pose_cam_loc pose; p = pose_p pose
      in if uv = [] then Inl RuntimeError
         else case broadcast_batch intrinsics (length uv) of
           None \<Rightarrow> Inl RuntimeError
         | Some ks \<Rightarrow>
             if length p \<noteq> length uv then Inl RuntimeError
             else Inr (map (\<lambda>(uvs, pb, c, k). map (\<lambda>s. normalize3 (ray_dir_raw pb c k s)) uvs)
                         (zip uv (zip p (zip cam_loc ks))),
                       cam_loc))"

text \<open>
  The words of the specification: the 4x4 pose equivalent to a 7-vector has the
  rotation of the quaternion in its top-left 3x3 block, the translation in its top-right
  column and the bottom row \<open>[0, 0, 0, 1]\<close>.
\<close>

fun equivalent_pose44 :: "vec7 \<Rightarrow> mat4" where
  "equivalent_pose44 (qw, qx, qy, qz, tx, ty, tz) =
     (let R = quat_to_rot1 (qw, qx, qy, qz)
      in \<lparr>e00 = m00 R, e01 = m01 R, e02 = m02 R, e03 = tx,
          e10 = m10 R, e11 = m11 R, e12 = m12 R, e13 = ty,
          e20 = m20 R, e21 = m21 R, e22 = m22 R, e23 = tz,
          e30 = 0, e31 = 0, e32 = 0, e33 = 1\<rparr>)"

text \<open>\<^verbatim>\<open>pose.shape[0]\<close>.\<close>

fun pose_batch_size :: "pose \<Rightarrow> nat" where
  "pose_batch_size (Pose7 ps) = length ps"
| "pose_batch_size (Pose44 ms) = length ms"

text \<open>
  The specification's data model: a pose is a rigid transform, with a rotation in the
  top-left 3x3 block. The columns of that block are then orthonormal.
\<close>

definition rotation_block_orthonormal :: "mat4 \<Rightarrow> bool" where
  "rotation_block_orthonormal p =
     ((e00 p)\<^sup>2 + (e10 p)\<^sup>2 + (e20 p)\<^sup>2 = 1
    \<and> (e01 p)\<^sup>2 + (e11 p)\<^sup>2 + (e21 p)\<^sup>2 = 1
    \<and> (e02 p)\<^sup>2 + (e12 p)\<^sup>2 + (e22 p)\<^sup>2 = 1
    \<and> e00 p * e01 p + e10 p * e11 p + e20 p * e21 p = 0
    \<and> e00 p * e02 p + e10 p * e12 p + e20 p * e22 p = 0
    \<and> e01 p * e02 p + e11 p * e12 p + e21 p * e22 p = 0)"

subsection \<open>Double-precision rounding\<close>

text \<open>
  The binary exponent of a nonzero real \<open>x\<close>: the \<open>e\<close> with \<open>2^e \<le> |x| < 2^(e+1)\<close>,
  found by halving from above 2 and by doubling from below 1.
\<close>

function expo_up :: "real \<Rightarrow> int" where
  "expo_up x = (if x < 2 then 0 else 1 + expo_up (x / 2))"
  by pat_completeness auto
termination
proof (relation "measure (\<lambda>x. nat \<lfloor>x\<rfloor>)")
  show "wf (measure (\<lambda>x. nat \<lfloor>x\<rfloor>))"
    by simp
next
  fix x :: real
  assume "\<not> x < 2"
  then have x: "2 \<le> x"
    by simp
  then have "x / 2 \<le> x - 1"
    by simp
  then have "\<lfloor>x / 2\<rfloor> \<le> \<lfloor>x - 1\<rfloor>"
    by (rule floor_mono)
  then have "\<lfloor>x / 2\<rfloor> < \<lfloor>x\<rfloor>"
    by simp
  moreover have "0 < \<lfloor>x\<rfloor>"
    using x by (simp add: floor_less_iff less_floor_iff)
  ultimately show "(x / 2, x) \<in> measure (\<lambda>x. nat \<lfloor>x\<rfloor>)"
    by simp
qed

function expo_dn :: "real \<Rightarrow> int" where
  "expo_dn x = (if x \<le> 0 \<or> 1 \<le> x then 0 else expo_dn (2 * x) - 1)"
  by pat_completeness auto
termination
proof (relation "measure (\<lambda>x. nat \<lceil>1 / x\<rceil>)")
  show "wf (measure (\<lambda>x. nat \<lceil>1 / x\<rceil>))"
    by simp
next
  fix x :: real
  assume "\<not> (x \<le> 0 \<or> 1 \<le> x)"
  then have x: "0 < x" "x < 1"
    by simp_all
  define t where "t = 1 / x"
  have t: "1 < t"
    using x by (simp add: t_def)
  have "t / 2 \<le> real_of_int \<lceil>t\<rceil> - 1"
  proof (cases "t \<le> 2")
    case True
    have "2 \<le> \<lceil>t\<rceil>"
      using t by (simp add: le_ceiling_iff)
    then have "2 \<le> real_of_int \<lceil>t\<rceil>"
      by linarith
    then show ?thesis
      using True by linarith
  next
    case False
    have "t \<le> real_of_int \<lceil>t\<rceil>"
      by (rule le_of_int_ceiling)
    then show ?thesis
      using False by linarith
  qed
  then have "t / 2 \<le> real_of_int (\<lceil>t\<rceil> - 1)"
    by simp
  then have c: "\<lceil>t / 2\<rceil> \<le> \<lceil>t\<rceil> - 1"
    by (simp only: ceiling_le_iff)
  have e1: "1 / (2 * x) = t / 2"
    by (simp add: t_def)
  have p: "0 < \<lceil>t\<rceil>"
    using t by (simp add: less_ceiling_iff)
  have "nat \<lceil>1 / (2 * x)\<rceil> < nat \<lceil>1 / x\<rceil>"
    unfolding e1 t_def [symmetric] using c p by linarith
  then show "(2 * x, x) \<in> measure (\<lambda>x. nat \<lceil>1 / x\<rceil>)"
    by (simp only: in_measure)
qed

declare expo_up.simps [simp del]

declare expo_dn.simps [simp del]

definition expo :: "real \<Rightarrow> int" where
  "expo x = (if 1 \<le> \<bar>x\<bar> then expo_up \<bar>x\<bar> else expo_dn \<bar>x\<bar>)"

text \<open>Rounding to the nearest integer, a tie going to the even one.\<close>

definition round_half_even :: "real \<Rightarrow> int" where
  "round_half_even s =
     (let f = \<lfloor>s\<rfloor>; r = s - real_of_int f
      in if r < 1 / 2 then f else if 1 / 2 < r then f + 1
         else if even f then f else f + 1)"

text \<open>
  The IEEE 754 binary64 number nearest to a real, ties to even: 53 significant bits
  above \<open>2^-1022\<close> and the fixed spacing \<open>2^-1074\<close> below. It is the result of a
  float64 operation on the exact result of that operation; overflow beyond \<open>2^1024\<close> is
  not modelled.
\<close>

definition fl64 :: "real \<Rightarrow> real" where
  "fl64 x =
     (if x = 0 then 0
      else let e = max (expo x) (- 1022); ulp = 2 powi (e - 52)
           in real_of_int (round_half_even (x / ulp)) * ulp)"

subsection \<open>Weighted bilinear sampler\<close>

text \<open>
  A dense field is a numpy array of shape \<open>(h, w)\<close> or \<open>(h, w, c)\<close>: its shape and
  its elements at the indices within the shape. A boolean mask is a field of zeros and
  ones.
\<close>

datatype field =
  Field2 nat nat "nat \<Rightarrow> nat \<Rightarrow> real"
| Field3 nat nat nat "nat \<Rightarrow> nat \<Rightarrow> nat \<Rightarrow> real"

text \<open>
  The result of resampling one field at \<open>n\<close> coordinates: shape \<open>(n,)\<close> for a 2-D
  field, \<open>(n, c)\<close> for a field of \<open>c\<close> channels.
\<close>

datatype sampled = Sampled1 "real list" | SampledC "real list list"

text \<open>
  The state of \<^verbatim>\<open>np.random\<close> is a fixed stream of draws and the position of the
  next one. \<^verbatim>\<open>np.random.rand(k, 2)\<close> takes \<open>2 k\<close> draws, row by row.
\<close>

type_synonym rng = "nat \<Rightarrow> real"

text \<open>
  A draw of \<^verbatim>\<open>np.random.rand\<close>: a multiple of \<open>2^-53\<close> in \<open>[0, 1)\<close>.
\<close>

definition rand_value :: "real \<Rightarrow> bool" where
  "rand_value u = (0 \<le> u \<and> u < 1 \<and> real_of_int \<lfloor>u * 2 ^ 53\<rfloor> = u * 2 ^ 53)"

definition rand2 :: "rng \<Rightarrow> nat \<Rightarrow> nat \<Rightarrow> (real \<times> real) list" where
  "rand2 g pos k = map (\<lambda>i. (g (pos + 2 * i), g (pos + 2 * i + 1))) [0..<k]"

text \<open>Python's \<^verbatim>\<open>int(x)\<close> on a float: truncation toward zero.\<close>

definition py_int :: "real \<Rightarrow> int" where
  "py_int x = (if 0 \<le> x then \<lfloor>x\<rfloor> else \<lceil>x\<rceil>)"

text \<open>
  An integer index into an axis of size \<open>n\<close>: negative indices count from the end,
  anything outside \<open>[-n, n)\<close> raises \<^verbatim>\<open>IndexError\<close>.
\<close>

definition np_index :: "nat \<Rightarrow> int \<Rightarrow> error + nat" where
  "np_index n i =
     (if 0 \<le> i \<and> i < int n then Inr (nat i)
      else if - int n \<le> i \<and> i < 0 then Inr (nat (i + int n))
      else Inl IndexError)"

text \<open>The first error of a list of outcomes, or all the results.\<close>

fun sequence_err :: "(error + 'a) list \<Rightarrow> error + 'a list" where
  "sequence_err [] = Inr []"
| "sequence_err (Inl e # rs) = Inl e"
| "sequence_err (Inr x # rs) =
     (case sequence_err rs of Inl e \<Rightarrow> Inl e | Inr xs \<Rightarrow> Inr (x # xs))"

text \<open>
  \<^verbatim>\<open>bilinear_interpolation(xs, ys, dist_map)\<close> at one coordinate of a 2-D array of
  shape \<open>(h, w)\<close>: the four neighbours are read first (\<open>Q\<close>), then \<open>dx @ Q @ dy\<close>.
  The cast of the floor to a 32-bit integer is taken not to overflow: coordinates are
  below \<open>2^31\<close>. The weights and the products are computed over exact reals.
\<close>

definition interp1 :: "nat \<Rightarrow> nat \<Rightarrow> (nat \<Rightarrow> nat \<Rightarrow> real) \<Rightarrow> real \<times> real \<Rightarrow> error + real" where
  "interp1 h w dist_map s =
     (case s of (x, y) \<Rightarrow>
        let x1 = \<lfloor>x\<rfloor>; y1 = \<lfloor>y\<rfloor>; x2 = x1 + 1; y2 = y1 + 1
        in case (np_index h x1, np_index w y1, np_index h x2, np_index w y2) of
             (Inr i1, Inr j1, Inr i2, Inr j2) \<Rightarrow>
               Inr (((real_of_int x2 - x) * dist_map i1 j1 + (x - real_of_int x1) * dist_map i2 j1)
                      * (real_of_int y2 - y)
                    + ((real_of_int x2 - x) * dist_map i1 j2 + (x - real_of_int x1) * dist_map i2 j2)
                      * (y - real_of_int y1))
           | _ \<Rightarrow> Inl IndexError)"

definition bilinear_interpolation ::
  "(real \<times> real) list \<Rightarrow> nat \<Rightarrow> nat \<Rightarrow> (nat \<Rightarrow> nat \<Rightarrow> real) \<Rightarrow> error + real list" where
  "bilinear_interpolation indices h w dist_map =
     sequence_err (map (interp1 h w dist_map) indices)"

text \<open>
  The body of the loop over \<^verbatim>\<open>data.items()\<close>. A field of three dimensions is
  resampled channel by channel and stacked on the last axis (\<^verbatim>\<open>np.stack\<close> of no
  arrays raises \<^verbatim>\<open>ValueError\<close>); the reshape keeps \<open>n\<close> rows.
\<close>

fun sample_field :: "(real \<times> real) list \<Rightarrow> field \<Rightarrow> error + sampled" where
  "sample_field indices (Field2 h w f) =
     (case bilinear_interpolation indices h w f of
        Inl e \<Rightarrow> Inl e
      | Inr vs \<Rightarrow> Inr (Sampled1 vs))"
| "sample_field indices (Field3 h w c f) =
     (case sequence_err
             (map (\<lambda>i. bilinear_interpolation indices h w (\<lambda>a b. f a b i)) [0..<c]) of
        Inl e \<Rightarrow> Inl e
      | Inr cols \<Rightarrow>
          if c = 0 then Inl ValueError
          else Inr (SampledC (map (\<lambda>n. map (\<lambda>col. col ! n) cols) [0..<length indices])))"

definition sample_all ::
  "(real \<times> real) list \<Rightarrow> (string \<times> field) list \<Rightarrow> error + (string \<times> sampled) list" where
  "sample_all indices data =
     sequence_err
       (map (\<lambda>(key, val). case sample_field indices val of
                               Inl e \<Rightarrow> Inl e
                             | Inr new_val \<Rightarrow> Inr (key, new_val)) data)"

text \<open>
  \<^verbatim>\<open>np.where(mask)\<close>: the indices of the nonzero elements in row-major order (for a
  mask of three dimensions, their first two components).
\<close>

fun mask_where :: "field \<Rightarrow> (nat \<times> nat) list" where
  "mask_where (Field2 h w f) =
     concat (map (\<lambda>i. map (\<lambda>j. (i, j)) (filter (\<lambda>j. f i j \<noteq> 0) [0..<w])) [0..<h])"
| "mask_where (Field3 h w c f) =
     concat (map (\<lambda>i. concat (map (\<lambda>j. map (\<lambda>k. (i, j))
                                            (filter (\<lambda>k. f i j k \<noteq> 0) [0..<c])) [0..<w]))
                 [0..<h])"

fun is_2d :: "field \<Rightarrow> bool" where
  "is_2d (Field2 h w f) = True"
| "is_2d (Field3 h w c f) = False"

text \<open>\<^verbatim>\<open>where.min(axis=1)\<close> and \<^verbatim>\<open>where.max(axis=1)\<close>, for a non-empty \<open>where\<close>.\<close>

definition bbox_min :: "(nat \<times> nat) list \<Rightarrow> nat \<times> nat" where
  "bbox_min wh = (Min (set (map fst wh)), Min (set (map snd wh)))"

definition bbox_max :: "(nat \<times> nat) list \<Rightarrow> nat \<times> nat" where
  "bbox_max wh = (Max (set (map fst wh)), Max (set (map snd wh)))"

text \<open>
  \<^verbatim>\<open>int(num_sample * bbox_ratio)\<close>: the integer is converted to a float, the product
  is a float64 product, and \<^verbatim>\<open>int\<close> truncates it.
\<close>

definition num_sample_bbox :: "int \<Rightarrow> real \<Rightarrow> int" where
  "num_sample_bbox num_sample bbox_ratio =
     py_int (fl64 (fl64 (real_of_int num_sample) * bbox_ratio))"

text \<open>
  \<^verbatim>\<open>samples_bbox * (bbox_max - bbox_min) + bbox_min\<close> on the draws \<open>us\<close>: the integer
  arrays are converted to float64, the product and the sum are float64 operations.
\<close>

definition samples_bbox :: "(real \<times> real) list \<Rightarrow> nat \<times> nat \<Rightarrow> nat \<times> nat \<Rightarrow> (real \<times> real) list" where
  "samples_bbox us bmin bmax =
     map (\<lambda>(a, b).
            (fl64 (fl64 (a * fl64 (real (fst bmax) - real (fst bmin))) + fl64 (real (fst bmin))),
             fl64 (fl64 (b * fl64 (real (snd bmax) - real (snd bmin))) + fl64 (real (snd bmin)))))
       us"

text \<open>
  \<^verbatim>\<open>samples_uniform *= (img_size[0] - 1, img_size[1] - 1)\<close> on the draws \<open>us\<close>, a
  float64 product with the converted integers.
\<close>

definition samples_uniform :: "(real \<times> real) list \<Rightarrow> int \<times> int \<Rightarrow> (real \<times> real) list" where
  "samples_uniform us img_size =
     map (\<lambda>(a, b). (fl64 (a * fl64 (real_of_int (fst img_size - 1))),
                     fl64 (b * fl64 (real_of_int (snd img_size - 1))))) us"

text \<open>\<^verbatim>\<open>get_index_outside_of_bbox\<close>: the positions of the samples outside the box.\<close>

definition get_index_outside_of_bbox ::
  "(real \<times> real) list \<Rightarrow> nat \<times> nat \<Rightarrow> nat \<times> nat \<Rightarrow> nat list" where
  "get_index_outside_of_bbox samples bmin bmax =
     filter (\<lambda>i. fst (samples ! i) < real (fst bmin) \<or> fst (samples ! i) > real (fst bmax)
                \<or> snd (samples ! i) < real (snd bmin) \<or> snd (samples ! i) > real (snd bmax))
       [0..<length samples]"

text \<open>
  \<^verbatim>\<open>weighted_sampling(data, img_size, num_sample, bbox_ratio)\<close> on the generator
  \<open>g\<close> at position \<open>pos\<close>. The result is the outcome, \<^verbatim>\<open>(output, index_outside)\<close> or an
  exception, and the position of the generator when the call ends.
  \<^verbatim>\<open>data["object_mask"]\<close> raises \<^verbatim>\<open>KeyError\<close> for a missing key; the minimum of an
  empty \<open>where\<close> raises \<^verbatim>\<open>ValueError\<close>; so does \<^verbatim>\<open>np.random.rand\<close> for a
  negative count, and the broadcast of the \<open>k x 2\<close> draws against the three-component
  box of a mask of three dimensions.
\<close>

definition weighted_sampling ::
  "(string \<times> field) list \<Rightarrow> int \<times> int \<Rightarrow> int \<Rightarrow> real \<Rightarrow> rng \<Rightarrow> nat \<Rightarrow>
     (error + ((string \<times> sampled) list \<times> nat list)) \<times> nat" where
  "weighted_sampling data img_size num_sample bbox_ratio g pos =
     (case map_of data ''object_mask'' of
        None \<Rightarrow> (Inl KeyError, pos)
      | Some object_mask \<Rightarrow>
          let wh = mask_where object_mask in
          if wh = [] then (Inl ValueError, pos)
          else
            let bmin = bbox_min wh; bmax = bbox_max wh;
                n_bbox = num_sample_bbox num_sample bbox_ratio
            in if n_bbox < 0 then (Inl ValueError, pos)
               else
                 let us_bbox = rand2 g pos (nat n_bbox);
                     pos1 = pos + 2 * nat n_bbox
                 in if \<not> is_2d object_mask then (Inl ValueError, pos1)
                    else
                      let s_bbox = samples_bbox us_bbox bmin bmax;
                          n_uniform = num_sample - n_bbox
                      in if n_uniform < 0 then (Inl ValueError, pos1)
                         else
                           let us_uniform = rand2 g pos1 (nat n_uniform);
                               pos2 = pos1 + 2 * nat n_uniform;
                               s_uniform = samples_uniform us_uniform img_size;
                               index_outside =
                                 map (\<lambda>i. i + nat n_bbox)
                                   (get_index_outside_of_bbox s_uniform bmin bmax);
                               indices = s_bbox @ s_uniform
                           in case sample_all indices data of
                                Inl e \<Rightarrow> (Inl e, pos2)
                              | Inr output \<Rightarrow> (Inr (output, index_outside), pos2))"

text \<open>
  Words for the properties of the sampler: the spatial shape of a field; the number of
  rows of a resampled field and whether it has the field's channels; and that the four
  grid indices read at one coordinate, \<open>floor\<close> and \<open>floor + 1\<close> on each axis, lie
  within \<open>[0, size - 1]\<close>.
\<close>

fun field_shape :: "field \<Rightarrow> nat \<times> nat" where
  "field_shape (Field2 h w f) = (h, w)"
| "field_shape (Field3 h w c f) = (h, w)"

fun sampled_rows :: "sampled \<Rightarrow> nat" where
  "sampled_rows (Sampled1 vs) = length vs"
| "sampled_rows (SampledC rows) = length rows"

fun channels_preserved :: "field \<Rightarrow> sampled \<Rightarrow> bool" where
  "channels_preserved (Field2 h w f) (Sampled1 vs) = True"
| "channels_preserved (Field3 h w c f) (SampledC rows) = list_all (\<lambda>r. length r = c) rows"
| "channels_preserved (Field2 h w f) (SampledC rows) = False"
| "channels_preserved (Field3 h w c f) (Sampled1 vs) = False"

definition in_grid :: "int \<times> int \<Rightarrow> real \<times> real \<Rightarrow> bool" where
  "in_grid img_size s =
     (0 \<le> \<lfloor>fst s\<rfloor> \<and> \<lfloor>fst s\<rfloor> + 1 \<le> fst img_size - 1
    \<and> 0 \<le> \<lfloor>snd s\<rfloor> \<and> \<lfloor>snd s\<rfloor> + 1 \<le> snd img_size - 1)"

section \<open>Properties\<close>

subsection \<open>Double-precision rounding\<close>

lemma expo_up_bounds:
  "1 \<le> x \<Longrightarrow> 2 powi (expo_up x) \<le> x \<and> x < 2 powi (expo_up x + 1)"
proof (induction x rule: expo_up.induct)
  case (1 x)
  show ?case
  proof (cases "x < 2")
    case True
    then show ?thesis
      using "1.prems" by (subst (1 2) expo_up.simps) simp
  next
    case False
    then have "1 \<le> x / 2"
      by simp
    then have ih: "2 powi (expo_up (x / 2)) \<le> x / 2" "x / 2 < 2 powi (expo_up (x / 2) + 1)"
      using "1.IH" [OF False] by simp_all
    have e: "expo_up x = 1 + expo_up (x / 2)"
      using False by (subst expo_up.simps) simp
    have "2 powi (1 + expo_up (x / 2)) = 2 * (2 powi (expo_up (x / 2)) :: real)"
      by (simp add: power_int_add)
    moreover have "2 powi (1 + expo_up (x / 2) + 1) = 2 * (2 powi (expo_up (x / 2) + 1) :: real)"
      by (simp add: power_int_add)
    ultimately show ?thesis
      unfolding e using ih by simp
  qed
qed

lemma expo_dn_bounds:
  "0 < x \<Longrightarrow> x < 1 \<Longrightarrow> 2 powi (expo_dn x) \<le> x \<and> x < 2 powi (expo_dn x + 1)"
proof (induction x rule: expo_dn.induct)
  case (1 x)
  have e: "expo_dn x = expo_dn (2 * x) - 1"
    using "1.prems" by (subst expo_dn.simps) simp
  have half: "2 powi (n - 1) = (2 powi n :: real) / 2" for n :: int
    by (simp add: power_int_diff)
  show ?case
  proof (cases "1 \<le> 2 * x")
    case True
    then have "expo_dn (2 * x) = 0"
      by (subst expo_dn.simps) simp
    then show ?thesis
      unfolding e using True "1.prems" by (simp add: power_int_minus)
  next
    case False
    then have "2 powi (expo_dn (2 * x)) \<le> 2 * x \<and> 2 * x < 2 powi (expo_dn (2 * x) + 1)"
      using "1.IH" "1.prems" by simp
    then show ?thesis
      unfolding e using half [of "expo_dn (2 * x)"] half [of "expo_dn (2 * x) + 1"]
      by simp
  qed
qed

lemma expo_bounds:
  assumes "x \<noteq> 0"
  shows "2 powi (expo x) \<le> \<bar>x\<bar>" and "\<bar>x\<bar> < 2 powi (expo x + 1)"
proof -
  have "2 powi (expo x) \<le> \<bar>x\<bar> \<and> \<bar>x\<bar> < 2 powi (expo x + 1)"
  proof (cases "1 \<le> \<bar>x\<bar>")
    case True
    then show ?thesis
      using expo_up_bounds [of "\<bar>x\<bar>"] by (simp add: expo_def)
  next
    case False
    then show ?thesis
      using expo_dn_bounds [of "\<bar>x\<bar>"] assms by (simp add: expo_def)
  qed
  then show "2 powi (expo x) \<le> \<bar>x\<bar>" and "\<bar>x\<bar> < 2 powi (expo x + 1)"
    by simp_all
qed

lemma round_half_even_bounds:
  "s - 1 / 2 \<le> real_of_int (round_half_even s)"
  "real_of_int (round_half_even s) \<le> s + 1 / 2"
  unfolding round_half_even_def Let_def by (simp_all; linarith)+

lemma round_half_even_ge_int:
  assumes "real_of_int m \<le> s"
  shows "m \<le> round_half_even s"
proof -
  have "m \<le> \<lfloor>s\<rfloor>"
    using assms by (simp add: le_floor_iff)
  then show ?thesis
    unfolding round_half_even_def Let_def by simp
qed

lemma round_half_even_le_int:
  assumes "s \<le> real_of_int m"
  shows "round_half_even s \<le> m"
proof (cases "s = real_of_int m")
  case True
  then show ?thesis
    unfolding round_half_even_def Let_def by simp
next
  case False
  then have "s < real_of_int m"
    using assms by simp
  then have "\<lfloor>s\<rfloor> < m"
    by (simp add: floor_less_iff)
  then show ?thesis
    unfolding round_half_even_def Let_def by simp
qed

lemma fl64_zero: "fl64 0 = 0"
  by (simp add: fl64_def)

text \<open>Below \<open>2^53\<close> in magnitude the spacing of the doubles divides 1.\<close>

lemma fl64_scale:
  assumes "x \<noteq> 0" and "\<bar>x\<bar> < 2 ^ 53"
  obtains n :: nat where "fl64 x = real_of_int (round_half_even (x * 2 ^ n)) / 2 ^ n"
    and "2 powi (max (expo x) (- 1022)) = (2 ^ 53 :: real) / 2 ^ (Suc n)"
proof -
  let ?e = "max (expo x) (- 1022)"
  have "2 powi (expo x) \<le> \<bar>x\<bar>"
    by (rule expo_bounds(1) [OF assms(1)])
  then have "(2::real) powi (expo x) < 2 powi 53"
    using assms(2) by simp
  then have "expo x < 53"
    using power_int_increasing [of 53 "expo x" "2::real"] by (cases "expo x < 53") simp_all
  then have e: "?e \<le> 52"
    by simp
  define n where "n = nat (52 - ?e)"
  have ne: "int n = 52 - ?e"
    using e by (simp add: n_def)
  have ulp: "(2::real) powi (?e - 52) = 1 / 2 ^ n"
  proof -
    have "?e - 52 = - int n"
      using ne by simp
    then show ?thesis
      by (simp add: power_int_minus_divide)
  qed
  have a: "fl64 x = real_of_int (round_half_even (x * 2 ^ n)) / 2 ^ n"
    using assms(1) unfolding fl64_def Let_def ulp by simp
  have "?e = 52 - int n"
    using ne by simp
  then have "(2::real) powi ?e = 2 powi (52 - int n)"
    by simp
  also have "\<dots> = 2 ^ 52 / 2 ^ n"
    by (simp add: power_int_diff)
  finally have b: "2 powi ?e = (2 ^ 53 :: real) / 2 ^ (Suc n)"
    by simp
  show ?thesis
    using that [OF a b] .
qed

lemma fl64_between_ints:
  assumes "real_of_int a \<le> x" and "x \<le> real_of_int b"
    and "\<bar>a\<bar> < 2 ^ 53" and "\<bar>b\<bar> < 2 ^ 53"
  shows "real_of_int a \<le> fl64 x" and "fl64 x \<le> real_of_int b"
proof -
  have "real_of_int a \<le> fl64 x \<and> fl64 x \<le> real_of_int b"
  proof (cases "x = 0")
    case True
    then show ?thesis
      using assms(1,2) by (simp add: fl64_zero)
  next
    case False
    have "real_of_int \<bar>a\<bar> < 2 ^ 53" "real_of_int \<bar>b\<bar> < 2 ^ 53"
      using assms(3,4) by (simp_all add: of_int_less_numeral_power_cancel_iff)
    then have "\<bar>x\<bar> < 2 ^ 53"
      using assms(1,2) by (simp add: abs_real_def split: if_splits)
    then obtain n :: nat where fl: "fl64 x = real_of_int (round_half_even (x * 2 ^ n)) / 2 ^ n"
      using fl64_scale [OF False] by blast
    have "real_of_int (a * 2 ^ n) \<le> x * 2 ^ n"
      using assms(1) by simp
    then have "a * 2 ^ n \<le> round_half_even (x * 2 ^ n)"
      by (rule round_half_even_ge_int)
    then have "real_of_int (a * 2 ^ n) \<le> real_of_int (round_half_even (x * 2 ^ n))"
      by (simp only: of_int_le_iff)
    then have lo: "real_of_int a \<le> fl64 x"
      unfolding fl by (simp add: pos_le_divide_eq)
    have "x * 2 ^ n \<le> real_of_int (b * 2 ^ n)"
      using assms(2) by simp
    then have "round_half_even (x * 2 ^ n) \<le> b * 2 ^ n"
      by (rule round_half_even_le_int)
    then have "real_of_int (round_half_even (x * 2 ^ n)) \<le> real_of_int (b * 2 ^ n)"
      by (simp only: of_int_le_iff)
    then have hi: "fl64 x \<le> real_of_int b"
      unfolding fl by (simp add: pos_divide_le_eq)
    show ?thesis
      using lo hi by simp
  qed
  then show "real_of_int a \<le> fl64 x" and "fl64 x \<le> real_of_int b"
    by simp_all
qed

lemma fl64_of_int:
  assumes "\<bar>a\<bar> < 2 ^ 53"
  shows "fl64 (real_of_int a) = real_of_int a"
  using fl64_between_ints [of a "real_of_int a" a] assms by simp

text \<open>
  A draw below 1 is at most \<open>1 - 2^-53\<close>; its product with a positive integer \<open>k\<close>
  below \<open>2^53\<close> rounds to a double strictly below \<open>k\<close>.
\<close>

lemma fl64_scaled_draw_less:
  assumes u: "0 \<le> u" "u \<le> 1 - 1 / 2 ^ 53"
    and k: "1 \<le> k" "k < 2 ^ 53"
  shows "fl64 (u * real_of_int k) < real_of_int k"
proof (cases "u * real_of_int k = 0")
  case True
  then show ?thesis
    using k(1) by (simp add: fl64_zero)
next
  case False
  let ?x = "u * real_of_int k"
  have kpos: "0 < real_of_int k"
    using k(1) by simp
  have kr: "real_of_int k < 2 ^ 53"
    using k(2) by (simp add: of_int_less_numeral_power_cancel_iff)
  have x0: "0 \<le> ?x"
    using u(1) kpos by simp
  have gap: "real_of_int k / 2 ^ 53 \<le> real_of_int k - ?x"
  proof -
    have "?x \<le> (1 - 1 / 2 ^ 53) * real_of_int k"
      using u(2) kpos by (intro mult_right_mono) simp_all
    then show ?thesis
      by (simp add: algebra_simps)
  qed
  have xk: "?x < real_of_int k"
    using gap kpos by (smt (verit) divide_pos_pos zero_less_numeral zero_less_power)
  have xa: "\<bar>?x\<bar> < 2 ^ 53"
    using x0 xk kr by simp
  obtain n :: nat where fl: "fl64 ?x = real_of_int (round_half_even (?x * 2 ^ n)) / 2 ^ n"
    and ex: "2 powi (max (expo ?x) (- 1022)) = (2 ^ 53 :: real) / 2 ^ (Suc n)"
    using fl64_scale [OF False xa] by blast
  have low: "(2 ^ 53 :: real) / 2 ^ (Suc n) < real_of_int k"
  proof (cases "expo ?x \<le> - 1022")
    case True
    then have "(2::real) powi (max (expo ?x) (- 1022)) = 2 powi (- 1022)"
      by (simp add: max_def)
    also have "\<dots> < 1"
      by (simp add: power_int_minus_divide)
    finally show ?thesis
      unfolding ex using k(1) by linarith
  next
    case False
    then have "(2::real) powi (max (expo ?x) (- 1022)) = 2 powi (expo ?x)"
      by (simp add: max_def)
    also have "\<dots> \<le> \<bar>?x\<bar>"
      by (rule expo_bounds(1)) fact
    finally show ?thesis
      unfolding ex using x0 xk by simp
  qed
  show ?thesis
  proof (rule ccontr)
    assume "\<not> fl64 ?x < real_of_int k"
    then have "real_of_int k \<le> real_of_int (round_half_even (?x * 2 ^ n)) / 2 ^ n"
      unfolding fl by simp
    then have "real_of_int k * 2 ^ n \<le> real_of_int (round_half_even (?x * 2 ^ n))"
      by (simp add: pos_le_divide_eq)
    also have "\<dots> \<le> ?x * 2 ^ n + 1 / 2"
      by (rule round_half_even_bounds(2))
    finally have "(real_of_int k - ?x) * 2 ^ n \<le> 1 / 2"
      by (simp add: algebra_simps)
    then have "real_of_int k - ?x \<le> 1 / 2 ^ (Suc n)"
      by (simp add: pos_le_divide_eq field_simps)
    then have "real_of_int k / 2 ^ 53 \<le> 1 / 2 ^ (Suc n)"
      using gap by linarith
    then have "real_of_int k \<le> 2 ^ 53 / 2 ^ (Suc n)"
      by (simp add: field_simps)
    then show False
      using low by linarith
  qed
qed

subsection \<open>Sphere intersection\<close>












subsection \<open>Batched 3x3 inverse\<close>

lemma inverse_3x3_batch_eq:
  "inverse_3x3_batch mat =
     (if \<exists>M \<in> set mat. det3 M = 0 then [''Warning: Singular matrices found.''] else [],
      map (\<lambda>M. if det3 M = 0 then const_mat3 NaN
                else map_mat3 (\<lambda>x. fdiv x (det3 M)) (adj3 M)) mat)"
proof -
  have ex: "list_ex (\<lambda>b. b) (map (\<lambda>d. d = 0) (map det3 mat)) = (\<exists>M \<in> set mat. det3 M = 0)"
    by (simp add: list_ex_iff)
  have m: "map2 (\<lambda>m s. if s then const_mat3 NaN else m)
             (map2 (\<lambda>a d. map_mat3 (\<lambda>x. fdiv x d) a) (map adj3 mat) (map det3 mat))
             (map (\<lambda>d. d = 0) (map det3 mat))
           = map (\<lambda>M. if det3 M = 0 then const_mat3 NaN
                       else map_mat3 (\<lambda>x. fdiv x (det3 M)) (adj3 M)) mat"
    by (induction mat) simp_all
  show ?thesis
    unfolding inverse_3x3_batch_def Let_def ex m by simp
qed

lemma map_mat3_fdiv:
  "d \<noteq> 0 \<Longrightarrow> map_mat3 (\<lambda>x. fdiv x d) A = map_mat3 Num (map_mat3 (\<lambda>x. x / d) A)"
  by (simp add: map_mat3_def fdiv_def)

lemma matmul3_adj3:
  "matmul3 M (adj3 M) = map_mat3 (\<lambda>x. det3 M * x) eye3"
  by (simp add: matmul3_def adj3_def map_mat3_def eye3_def det3_def algebra_simps)

lemma adj3_matmul3:
  "matmul3 (adj3 M) M = map_mat3 (\<lambda>x. det3 M * x) eye3"
  by (simp add: matmul3_def adj3_def map_mat3_def eye3_def det3_def algebra_simps)

lemma matmul3_scale_right:
  "matmul3 A (map_mat3 (\<lambda>x. x / d) B) = map_mat3 (\<lambda>x. x / d) (matmul3 A B)"
  by (simp add: matmul3_def map_mat3_def add_divide_distrib)

lemma matmul3_scale_left:
  "matmul3 (map_mat3 (\<lambda>x. x / d) A) B = map_mat3 (\<lambda>x. x / d) (matmul3 A B)"
  by (simp add: matmul3_def map_mat3_def add_divide_distrib)

lemma scale_eye3:
  "d \<noteq> 0 \<Longrightarrow> map_mat3 (\<lambda>x. x / d) (map_mat3 (\<lambda>x. d * x) eye3) = eye3"
  by (simp add: map_mat3_def eye3_def)

lemma adj3_is_adjugate: "adj3 M = adjugate_spec M"
  by (simp add: adj3_def adjugate_spec_def cofactor3_def minor3_def others3_def entry3_def)

lemma det3_is_cofactor_expansion:
  "det3 M = m00 M * cofactor3 M 0 0 + m01 M * cofactor3 M 0 1 + m02 M * cofactor3 M 0 2"
  by (simp add: det3_def cofactor3_def minor3_def others3_def entry3_def algebra_simps)



text \<open>
  C4. Correctness of the inverse. For a batch element \<open>M\<close> with nonzero determinant
  the result is the finite matrix \<open>N = adjugate(M) / det(M)\<close>, where the adjugate is the
  transpose of the cofactor matrix and the determinant is the cofactor expansion along
  the first row; over exact arithmetic \<open>M @ N\<close> and \<open>N @ M\<close> are the identity.
\<close>

theorem inverse_correct:
  assumes "i < length mat" and "det3 (mat ! i) \<noteq> 0"
  shows "\<exists>N. snd (inverse_3x3_batch mat) ! i = map_mat3 Num N
           \<and> N = map_mat3 (\<lambda>x. x / det3 (mat ! i)) (adjugate_spec (mat ! i))
           \<and> det3 (mat ! i) = m00 (mat ! i) * cofactor3 (mat ! i) 0 0
                             + m01 (mat ! i) * cofactor3 (mat ! i) 0 1
                             + m02 (mat ! i) * cofactor3 (mat ! i) 0 2
           \<and> matmul3 (mat ! i) N = eye3
           \<and> matmul3 N (mat ! i) = eye3"
proof -
  let ?M = "mat ! i"
  let ?N = "map_mat3 (\<lambda>x. x / det3 ?M) (adj3 ?M)"
  have "snd (inverse_3x3_batch mat) ! i = map_mat3 Num ?N"
    using assms by (simp add: inverse_3x3_batch_eq map_mat3_fdiv)
  moreover have "?N = map_mat3 (\<lambda>x. x / det3 ?M) (adjugate_spec ?M)"
    by (simp add: adj3_is_adjugate)
  moreover have "matmul3 ?M ?N = eye3"
    using assms(2) by (simp add: matmul3_scale_right matmul3_adj3 scale_eye3)
  moreover have "matmul3 ?N ?M = eye3"
    using assms(2) by (simp add: matmul3_scale_left adj3_matmul3 scale_eye3)
  ultimately show ?thesis
    using det3_is_cofactor_expansion [of ?M] by blast
qed

theorem inverse_correct_witness:
  "\<exists>N. snd (inverse_3x3_batch
         [\<lparr>m00 = 1, m01 = 2, m02 = 0, m10 = 0, m11 = 1, m12 = 0,
           m20 = 0, m21 = 0, m22 = 1\<rparr>]) ! 0 = map_mat3 Num N
      \<and> N = \<lparr>m00 = 1, m01 = - 2, m02 = 0, m10 = 0, m11 = 1, m12 = 0,
             m20 = 0, m21 = 0, m22 = 1\<rparr>
      \<and> matmul3 \<lparr>m00 = 1, m01 = 2, m02 = 0, m10 = 0, m11 = 1, m12 = 0,
                 m20 = 0, m21 = 0, m22 = 1\<rparr> N = eye3"
proof -
  let ?A = "\<lparr>m00 = 1::real, m01 = 2, m02 = 0, m10 = 0, m11 = 1, m12 = 0,
             m20 = 0, m21 = 0, m22 = 1\<rparr>"
  have d: "det3 ?A = 1"
    by (simp add: det3_def)
  have a: "map_mat3 (\<lambda>x. x / 1) (adjugate_spec ?A)
           = \<lparr>m00 = 1, m01 = - 2, m02 = 0, m10 = 0, m11 = 1, m12 = 0,
              m20 = 0, m21 = 0, m22 = 1\<rparr>"
    by (simp add: adjugate_spec_def cofactor3_def minor3_def others3_def entry3_def
        map_mat3_def)
  show ?thesis
    using inverse_correct [of 0 "[?A]"] d a by auto
qed

subsection \<open>Rotation algebra\<close>

lemma max_one_eps: "max 1 normalize_eps = 1"
  by (simp add: normalize_eps_def)

lemma normalize4_unit:
  assumes "norm4_sq q = 1"
  shows "normalize4 q = q"
proof -
  obtain a b c d where q: "q = (a, b, c, d)"
    by (cases q) auto
  have "sqrt (a\<^sup>2 + b\<^sup>2 + c\<^sup>2 + d\<^sup>2) = 1"
    using assms unfolding q by simp
  then have "max (sqrt (a\<^sup>2 + b\<^sup>2 + c\<^sup>2 + d\<^sup>2)) normalize_eps = 1"
    by (simp only: max_one_eps)
  then show ?thesis
    unfolding q normalize4.simps Let_def by simp
qed

lemma quat_to_rot1_unit:
  assumes "w\<^sup>2 + x\<^sup>2 + y\<^sup>2 + z\<^sup>2 = 1"
  shows "quat_to_rot1 (w, x, y, z) =
          \<lparr>m00 = 1 - 2 * (y\<^sup>2 + z\<^sup>2),
           m01 = 2 * (y * x - z * w),
           m02 = 2 * (x * z + w * y),
           m10 = 2 * (y * x + z * w),
           m11 = 1 - 2 * (x\<^sup>2 + z\<^sup>2),
           m12 = 2 * (y * z - x * w),
           m20 = 2 * (z * x - y * w),
           m21 = 2 * (y * z + x * w),
           m22 = 1 - 2 * (x\<^sup>2 + y\<^sup>2)\<rparr>"
proof -
  have n: "normalize4 (w, x, y, z) = (w, x, y, z)"
    using assms normalize4_unit [of "(w, x, y, z)"] by simp
  show ?thesis
    unfolding quat_to_rot1_def n by simp
qed

lemma trace_unit:
  assumes "(w::real)\<^sup>2 + x\<^sup>2 + y\<^sup>2 + z\<^sup>2 = 1"
  shows "1 + (1 - 2 * (y\<^sup>2 + z\<^sup>2)) + (1 - 2 * (x\<^sup>2 + z\<^sup>2)) + (1 - 2 * (x\<^sup>2 + y\<^sup>2)) = 4 * w\<^sup>2"
proof -
  have "1 + (1 - 2 * (y\<^sup>2 + z\<^sup>2)) + (1 - 2 * (x\<^sup>2 + z\<^sup>2)) + (1 - 2 * (x\<^sup>2 + y\<^sup>2))
        = 4 * w\<^sup>2 + 4 * (1 - (w\<^sup>2 + x\<^sup>2 + y\<^sup>2 + z\<^sup>2))"
    by (simp add: algebra_simps)
  then show ?thesis
    by (simp only: assms) simp
qed

lemma rot_to_quat1_pos:
  assumes "w\<^sup>2 + x\<^sup>2 + y\<^sup>2 + z\<^sup>2 = 1" and "w > 0"
  shows "rot_to_quat1 (quat_to_rot1 (w, x, y, z)) = num4 (w, x, y, z)"
proof -
  have s: "sqrt (4 * w\<^sup>2) = 2 * w"
    using assms(2) by (simp add: real_sqrt_mult)
  have nn: "\<not> 4 * w\<^sup>2 < 0"
    by (simp add: not_less)
  show ?thesis
    unfolding quat_to_rot1_unit [OF assms(1)] rot_to_quat1_def mat3.simps
      trace_unit [OF assms(1)] s Let_def
    using assms(2) nn by (simp add: fdiv_def)
qed

lemma rot_to_quat1_neg:
  assumes "w\<^sup>2 + x\<^sup>2 + y\<^sup>2 + z\<^sup>2 = 1" and "w < 0"
  shows "rot_to_quat1 (quat_to_rot1 (w, x, y, z)) = num4 (scale4 (-1) (w, x, y, z))"
proof -
  have s: "sqrt (4 * w\<^sup>2) = - (2 * w)"
    using assms(2) by (simp add: real_sqrt_mult)
  have nn: "\<not> 4 * w\<^sup>2 < 0"
    by (simp add: not_less)
  show ?thesis
    unfolding quat_to_rot1_unit [OF assms(1)] rot_to_quat1_def mat3.simps
      trace_unit [OF assms(1)] s Let_def
    using assms(2) nn by (simp add: fdiv_def field_simps)
qed

lemma norm4_sq_neg: "norm4_sq (scale4 (-1) q) = norm4_sq q"
  by (cases q) simp

lemma normalize4_neg: "normalize4 (scale4 (-1) q) = scale4 (-1) (normalize4 q)"
  by (cases q) (simp add: Let_def)

lemma quat_to_rot1_neg:
  "quat_to_rot1 (scale4 (-1) q) = quat_to_rot1 q"
proof -
  obtain a b c d where n: "normalize4 q = (a, b, c, d)"
    by (cases "normalize4 q") auto
  show ?thesis
    unfolding quat_to_rot1_def normalize4_neg n by simp
qed

text \<open>
  C8. Rotation round trip. For a batch element \<open>q\<close> of unit norm whose scalar
  component is not zero (in particular when \<open>|w| > 0.1\<close>), \<open>rot_to_quat(quat_to_rot(q))\<close>
  is a finite quaternion \<open>q'\<close> equal to \<open>q\<close> or to \<open>-q\<close>, exactly over the reals and so
  within every tolerance; and \<open>quat_to_rot(q')\<close> is again the matrix \<open>quat_to_rot(q)\<close>.
\<close>

theorem rotation_round_trip:
  assumes "i < length q" and "norm4_sq (q ! i) = 1" and "fst (q ! i) \<noteq> 0"
  shows "\<exists>q'. rot_to_quat (quat_to_rot q) ! i = num4 q'
            \<and> (q' = q ! i \<or> q' = scale4 (- 1) (q ! i))
            \<and> quat_to_rot [q'] = [quat_to_rot q ! i]"
proof -
  obtain w x y z where qi: "q ! i = (w, x, y, z)"
    by (cases "q ! i") auto
  have unit: "w\<^sup>2 + x\<^sup>2 + y\<^sup>2 + z\<^sup>2 = 1"
    using assms(2) unfolding qi by simp
  have w: "w \<noteq> 0"
    using assms(3) unfolding qi by simp
  have nth: "rot_to_quat (quat_to_rot q) ! i = rot_to_quat1 (quat_to_rot1 (w, x, y, z))"
    using assms(1) by (simp add: rot_to_quat_def quat_to_rot_def qi)
  have R: "quat_to_rot q ! i = quat_to_rot1 (w, x, y, z)"
    using assms(1) by (simp add: quat_to_rot_def qi)
  show ?thesis
  proof (cases "w > 0")
    case True
    have "rot_to_quat (quat_to_rot q) ! i = num4 (q ! i)"
      unfolding nth qi by (rule rot_to_quat1_pos [OF unit True])
    moreover have "quat_to_rot [q ! i] = [quat_to_rot q ! i]"
      unfolding R by (simp add: quat_to_rot_def qi)
    ultimately show ?thesis by blast
  next
    case False
    then have neg: "w < 0" using w by simp
    have "rot_to_quat (quat_to_rot q) ! i = num4 (scale4 (- 1) (q ! i))"
      unfolding nth qi by (rule rot_to_quat1_neg [OF unit neg])
    moreover have "quat_to_rot [scale4 (- 1) (q ! i)] = [quat_to_rot q ! i]"
      unfolding R by (simp add: quat_to_rot_def quat_to_rot1_neg qi del: scale4.simps)
    ultimately show ?thesis by blast
  qed
qed

theorem rotation_round_trip_witness:
  "\<exists>q'. rot_to_quat (quat_to_rot [(- 3 / 5, 4 / 5, 0, 0)]) ! 0 = num4 q'
        \<and> (q' = (- 3 / 5, 4 / 5, 0, 0) \<or> q' = scale4 (- 1) (- 3 / 5, 4 / 5, 0, 0))
        \<and> quat_to_rot [q'] = [quat_to_rot [(- 3 / 5, 4 / 5, 0, 0)] ! 0]"
proof -
  have "norm4_sq ((- 3 / 5, 4 / 5, 0, 0) :: quat) = 1"
    by (simp add: power2_eq_square)
  then show ?thesis
    using rotation_round_trip [of 0 "[(- 3 / 5, 4 / 5, 0, 0)]"] by simp
qed

subsection \<open>Camera ray generator\<close>

lemma pose_p_equivalent: "pose_p (Pose7 ps) = map equivalent_pose44 ps"
proof -
  have "set_col3 (set_block33 eye4 (quat_to_rot1 (pose_quat v))) (pose_loc v)
        = equivalent_pose44 v" for v
    by (cases v) (simp add: set_block33_def eye4_def Let_def)
  then show ?thesis
    by (simp add: quat_to_rot_def zip_map_map map_zip_map list.map_ident zip_same_conv_map)
qed

lemma col3_equivalent: "col3 (equivalent_pose44 v) = pose_loc v"
  by (cases v) (simp add: col3_def Let_def)

lemma pose_cam_loc_equivalent:
  "pose_cam_loc (Pose44 (map equivalent_pose44 ps)) = pose_cam_loc (Pose7 ps)"
  by (simp add: col3_equivalent)

lemma norm3_normalize3:
  assumes "normalize_eps \<le> norm3 v"
  shows "norm3 (normalize3 v) = 1"
proof -
  obtain a b c where v: "v = (a, b, c)"
    by (cases v) auto
  let ?n = "sqrt (a\<^sup>2 + b\<^sup>2 + c\<^sup>2)"
  have "0 < normalize_eps"
    by (simp add: normalize_eps_def)
  then have pos: "0 < ?n"
    using assms unfolding v norm3.simps by linarith
  have m: "max ?n normalize_eps = ?n"
    using assms unfolding v by simp
  have "(a / ?n)\<^sup>2 + (b / ?n)\<^sup>2 + (c / ?n)\<^sup>2 = (a\<^sup>2 + b\<^sup>2 + c\<^sup>2) / ?n\<^sup>2"
    by (simp add: power_divide flip: add_divide_distrib)
  also have "\<dots> = 1"
    using pos by simp
  finally have "sqrt ((a / ?n)\<^sup>2 + (b / ?n)\<^sup>2 + (c / ?n)\<^sup>2) = 1"
    by simp
  then show ?thesis
    unfolding v normalize3.simps norm3.simps Let_def m by simp
qed

lemma length_pose_p: "length (pose_p pose) = pose_batch_size pose"
  by (cases pose) (simp_all add: quat_to_rot_def)

lemma length_pose_cam_loc: "length (pose_cam_loc pose) = pose_batch_size pose"
  by (cases pose) simp_all

lemma get_camera_params_ok:
  assumes "uv \<noteq> []"
    and "pose_batch_size pose = length uv"
    and "broadcast_batch intrinsics (length uv) = Some ks"
  shows "get_camera_params uv pose intrinsics =
           Inr (map (\<lambda>(uvs, pb, c, k). map (\<lambda>s. normalize3 (ray_dir_raw pb c k s)) uvs)
                  (zip uv (zip (pose_p pose) (zip (pose_cam_loc pose) ks))),
                pose_cam_loc pose)"
  using assms by (simp add: get_camera_params_def length_pose_p Let_def)

lemma length_broadcast_batch:
  "broadcast_batch xs b = Some ks \<Longrightarrow> length ks = b"
  by (auto simp: broadcast_batch_def split: if_splits)

lemma sum_squares_orthonormal:
  fixes a0 a1 a2 b0 b1 b2 c0 c1 c2 x y :: real
  assumes "a0\<^sup>2 + b0\<^sup>2 + c0\<^sup>2 = 1" "a1\<^sup>2 + b1\<^sup>2 + c1\<^sup>2 = 1" "a2\<^sup>2 + b2\<^sup>2 + c2\<^sup>2 = 1"
    "a0 * a1 + b0 * b1 + c0 * c1 = 0" "a0 * a2 + b0 * b2 + c0 * c2 = 0"
    "a1 * a2 + b1 * b2 + c1 * c2 = 0"
  shows "(a0 * x + a1 * y + a2)\<^sup>2 + (b0 * x + b1 * y + b2)\<^sup>2 + (c0 * x + c1 * y + c2)\<^sup>2
         = x\<^sup>2 + y\<^sup>2 + 1"
proof -
  have "(a0 * x + a1 * y + a2)\<^sup>2 + (b0 * x + b1 * y + b2)\<^sup>2 + (c0 * x + c1 * y + c2)\<^sup>2
        = x\<^sup>2 * (a0\<^sup>2 + b0\<^sup>2 + c0\<^sup>2) + y\<^sup>2 * (a1\<^sup>2 + b1\<^sup>2 + c1\<^sup>2) + (a2\<^sup>2 + b2\<^sup>2 + c2\<^sup>2)
          + 2 * x * y * (a0 * a1 + b0 * b1 + c0 * c1)
          + 2 * x * (a0 * a2 + b0 * b2 + c0 * c2)
          + 2 * y * (a1 * a2 + b1 * b2 + c1 * c2)"
    by (simp add: power2_eq_square algebra_simps)
  then show ?thesis
    by (simp only: assms mult_1_right mult_zero_right add_0_right)
qed

lemma rigid_pose_nondegenerate:
  assumes "rotation_block_orthonormal p"
  shows "normalize_eps \<le> norm3 (ray_dir_raw p (col3 p) k s)"
proof -
  obtain u v where s: "s = (u, v)"
    by (cases s) auto
  obtain x y where l: "lift1 u v 1 k = (x, y, 1, 1)"
    by (simp add: lift1_def Let_def)
  have raw: "ray_dir_raw p (col3 p) k s
             = (e00 p * x + e01 p * y + e02 p,
                e10 p * x + e11 p * y + e12 p,
                e20 p * x + e21 p * y + e22 p)"
    unfolding s ray_dir_raw.simps l by (simp add: col3_def)
  have "(e00 p * x + e01 p * y + e02 p)\<^sup>2 + (e10 p * x + e11 p * y + e12 p)\<^sup>2
        + (e20 p * x + e21 p * y + e22 p)\<^sup>2 = x\<^sup>2 + y\<^sup>2 + 1"
    using assms unfolding rotation_block_orthonormal_def
    by (intro sum_squares_orthonormal) simp_all
  then have "norm3 (ray_dir_raw p (col3 p) k s) = sqrt (x\<^sup>2 + y\<^sup>2 + 1)"
    unfolding raw norm3.simps by simp
  moreover have "1 \<le> sqrt (x\<^sup>2 + y\<^sup>2 + 1)"
    by simp
  moreover have "normalize_eps \<le> 1"
    by (simp add: normalize_eps_def)
  ultimately show ?thesis
    by linarith
qed

lemma norm4_sq_normalize4:
  assumes "normalize_eps \<le> sqrt (norm4_sq q)"
  shows "norm4_sq (normalize4 q) = 1"
proof -
  obtain a b c d where q: "q = (a, b, c, d)"
    by (cases q) auto
  let ?n = "sqrt (a\<^sup>2 + b\<^sup>2 + c\<^sup>2 + d\<^sup>2)"
  have "0 < normalize_eps"
    by (simp add: normalize_eps_def)
  then have pos: "0 < ?n"
    using assms unfolding q norm4_sq.simps by linarith
  have m: "max ?n normalize_eps = ?n"
    using assms unfolding q by simp
  have "(a / ?n)\<^sup>2 + (b / ?n)\<^sup>2 + (c / ?n)\<^sup>2 + (d / ?n)\<^sup>2
        = (a\<^sup>2 + b\<^sup>2 + c\<^sup>2 + d\<^sup>2) / ?n\<^sup>2"
    by (simp add: power_divide flip: add_divide_distrib)
  also have "\<dots> = 1"
    using pos by simp
  finally show ?thesis
    unfolding q normalize4.simps norm4_sq.simps Let_def m by simp
qed

lemma unit_quat_columns:
  fixes w x y z :: real
  assumes "w\<^sup>2 + x\<^sup>2 + y\<^sup>2 + z\<^sup>2 = 1"
  shows "(1 - 2 * (y\<^sup>2 + z\<^sup>2))\<^sup>2 + (2 * (y * x + z * w))\<^sup>2 + (2 * (z * x - y * w))\<^sup>2 = 1"
    and "(2 * (y * x - z * w))\<^sup>2 + (1 - 2 * (x\<^sup>2 + z\<^sup>2))\<^sup>2 + (2 * (y * z + x * w))\<^sup>2 = 1"
    and "(2 * (x * z + w * y))\<^sup>2 + (2 * (y * z - x * w))\<^sup>2 + (1 - 2 * (x\<^sup>2 + y\<^sup>2))\<^sup>2 = 1"
    and "(1 - 2 * (y\<^sup>2 + z\<^sup>2)) * (2 * (y * x - z * w))
         + 2 * (y * x + z * w) * (1 - 2 * (x\<^sup>2 + z\<^sup>2))
         + 2 * (z * x - y * w) * (2 * (y * z + x * w)) = 0"
    and "(1 - 2 * (y\<^sup>2 + z\<^sup>2)) * (2 * (x * z + w * y))
         + 2 * (y * x + z * w) * (2 * (y * z - x * w))
         + 2 * (z * x - y * w) * (1 - 2 * (x\<^sup>2 + y\<^sup>2)) = 0"
    and "2 * (y * x - z * w) * (2 * (x * z + w * y))
         + (1 - 2 * (x\<^sup>2 + z\<^sup>2)) * (2 * (y * z - x * w))
         + 2 * (y * z + x * w) * (1 - 2 * (x\<^sup>2 + y\<^sup>2)) = 0"
  using assms by algebra+

lemma quat_pose_rigid:
  assumes "normalize_eps \<le> sqrt (norm4_sq (pose_quat v))"
  shows "rotation_block_orthonormal (equivalent_pose44 v)"
proof -
  obtain qw qx qy qz tx ty tz where v: "v = (qw, qx, qy, qz, tx, ty, tz)"
    by (cases v) auto
  obtain w x y z where n: "normalize4 (qw, qx, qy, qz) = (w, x, y, z)"
    by (cases "normalize4 (qw, qx, qy, qz)") auto
  have unit: "w\<^sup>2 + x\<^sup>2 + y\<^sup>2 + z\<^sup>2 = 1"
    using norm4_sq_normalize4 [of "(qw, qx, qy, qz)"] assms unfolding v n by simp
  show ?thesis
    unfolding v equivalent_pose44.simps quat_to_rot1_def n Let_def
      rotation_block_orthonormal_def
    using unit_quat_columns [OF unit] by simp
qed

lemma pose_cam_loc_col3:
  assumes "i < pose_batch_size pose"
  shows "pose_cam_loc pose ! i = col3 (pose_p pose ! i)"
proof (cases pose)
  case (Pose7 ps)
  then show ?thesis
    using assms unfolding Pose7 pose_p_equivalent by (simp add: col3_equivalent)
next
  case (Pose44 ms)
  then show ?thesis
    using assms by simp
qed

text \<open>
  C7. Ray generator guarantee. For a non-empty pixel batch (the code raises on an empty
  one), a pose batch and intrinsics of
  matching batch sizes (one set of intrinsics may serve the whole batch), with nonzero
  focal lengths and valid poses, the call returns: one direction of L2 norm 1 per sample,
  and as origins the location part of the pose, one per image and unchanged:
  \<^verbatim>\<open>pose[:, 4:]\<close> for 7-vectors, \<^verbatim>\<open>pose[:, :3, 3]\<close> for matrices. A pose is valid
  when it is rigid (the rotation block of \<open>p\<close> is orthonormal; for a 7-vector this holds
  as soon as the quaternion's norm is at least the \<open>eps\<close> of \<^verbatim>\<open>F.normalize\<close>, lemma
  \<open>quat_pose_rigid\<close>), or more generally when every direction of the image is
  non-degenerate before normalisation: its norm is at least that \<open>eps\<close>.
\<close>

theorem ray_generator_guarantee:
  assumes "uv \<noteq> []"
    and "pose_batch_size pose = length uv"
    and "broadcast_batch intrinsics (length uv) = Some ks"
    and "\<forall>i<length uv. e00 (ks ! i) \<noteq> 0 \<and> e11 (ks ! i) \<noteq> 0"
    and "\<forall>i<length uv.
           rotation_block_orthonormal (pose_p pose ! i)
         \<or> (\<forall>j<length (uv ! i).
               normalize_eps \<le> norm3 (ray_dir_raw (pose_p pose ! i) (pose_cam_loc pose ! i)
                                         (ks ! i) (uv ! i ! j)))"
  shows "\<exists>ray_dirs cam_loc.
           get_camera_params uv pose intrinsics = Inr (ray_dirs, cam_loc)
         \<and> length ray_dirs = length uv
         \<and> (\<forall>i<length uv. length (ray_dirs ! i) = length (uv ! i)
                \<and> (\<forall>j<length (uv ! i). norm3 (ray_dirs ! i ! j) = 1))
         \<and> (\<forall>ps. pose = Pose7 ps \<longrightarrow> cam_loc = map pose_loc ps)
         \<and> (\<forall>ms. pose = Pose44 ms \<longrightarrow> cam_loc = map col3 ms)"
proof -
  let ?rd = "map (\<lambda>(uvs, pb, c, k). map (\<lambda>s. normalize3 (ray_dir_raw pb c k s)) uvs)
                  (zip uv (zip (pose_p pose) (zip (pose_cam_loc pose) ks)))"
  have lk: "length ks = length uv"
    by (rule length_broadcast_batch [OF assms(3)])
  have res: "get_camera_params uv pose intrinsics = Inr (?rd, pose_cam_loc pose)"
    by (rule get_camera_params_ok [OF assms(1,2,3)])
  have len: "length ?rd = length uv"
    using assms(2) lk by (simp add: length_pose_p length_pose_cam_loc)
  have el: "?rd ! i = map (\<lambda>s. normalize3 (ray_dir_raw (pose_p pose ! i)
                                  (pose_cam_loc pose ! i) (ks ! i) s)) (uv ! i)"
    if "i < length uv" for i
    using that assms(2) lk by (simp add: length_pose_p length_pose_cam_loc)
  have nondeg: "normalize_eps \<le> norm3 (ray_dir_raw (pose_p pose ! i) (pose_cam_loc pose ! i)
                                         (ks ! i) (uv ! i ! j))"
    if i: "i < length uv" and j: "j < length (uv ! i)" for i j
  proof (cases "rotation_block_orthonormal (pose_p pose ! i)")
    case True
    have "pose_cam_loc pose ! i = col3 (pose_p pose ! i)"
      using i assms(2) by (intro pose_cam_loc_col3) simp
    then show ?thesis
      using rigid_pose_nondegenerate [OF True] by simp
  next
    case False
    then show ?thesis
      using assms(5) i j by blast
  qed
  have dirs: "length (?rd ! i) = length (uv ! i)
                \<and> (\<forall>j<length (uv ! i). norm3 (?rd ! i ! j) = 1)"
    if i: "i < length uv" for i
    using nondeg [OF i] by (simp add: el [OF i] norm3_normalize3)
  have "\<forall>ps. pose = Pose7 ps \<longrightarrow> pose_cam_loc pose = map pose_loc ps"
    by simp
  moreover have "\<forall>ms. pose = Pose44 ms \<longrightarrow> pose_cam_loc pose = map col3 ms"
    by simp
  ultimately show ?thesis
    using res len dirs by blast
qed

theorem ray_generator_guarantee_witness:
  "\<exists>ray_dirs cam_loc.
     get_camera_params [[(2, 2)]] (Pose7 [(1, 0, 0, 0, 5, 6, 7)]) [eye4]
       = Inr (ray_dirs, cam_loc)
   \<and> length ray_dirs = 1 \<and> length (ray_dirs ! 0) = 1
   \<and> norm3 (ray_dirs ! 0 ! 0) = 1
   \<and> cam_loc = [(5, 6, 7)]"
proof -
  let ?v = "(1, 0, 0, 0, 5, 6, 7) :: vec7"
  have b: "broadcast_batch [eye4] (length [[(2::real, 2::real)]]) = Some [eye4]"
    by (simp add: broadcast_batch_def)
  have f: "\<forall>i<length [[(2::real, 2::real)]]. e00 ([eye4] ! i) \<noteq> 0 \<and> e11 ([eye4] ! i) \<noteq> 0"
    by (simp add: eye4_def)
  have "normalize_eps \<le> sqrt (norm4_sq (pose_quat ?v))"
    by (simp add: normalize_eps_def)
  then have rigid: "rotation_block_orthonormal (equivalent_pose44 ?v)"
    by (rule quat_pose_rigid)
  have valid: "\<forall>i<length [[(2::real, 2::real)]].
           rotation_block_orthonormal (pose_p (Pose7 [?v]) ! i)
         \<or> (\<forall>j<length ([[(2, 2)]] ! i).
               normalize_eps \<le> norm3 (ray_dir_raw (pose_p (Pose7 [?v]) ! i)
                                         (pose_cam_loc (Pose7 [?v]) ! i)
                                         ([eye4] ! i) ([[(2, 2)]] ! i ! j)))"
    using rigid unfolding pose_p_equivalent by simp
  have ne: "[[(2::real, 2::real)]] \<noteq> []"
    by simp
  have "pose_batch_size (Pose7 [?v]) = length [[(2::real, 2::real)]]"
    by simp
  from ray_generator_guarantee [OF ne this b f valid] show ?thesis
    by auto
qed

text \<open>
  C9. Pose-representation equivalence. For every quaternion \<open>q\<close> (unit or not),
  translation \<open>t\<close>, pixel batch and intrinsics, the call with the 7-vector poses
  \<open>[q, t]\<close> gives the same outcome, directions and origins alike, as the call with the
  4x4 poses whose top-left block is \<open>quat_to_rot(q)\<close>, whose top-right column is \<open>t\<close>
  and whose bottom row is \<open>[0, 0, 0, 1]\<close>.
\<close>

theorem pose_representations_agree:
  "get_camera_params uv (Pose7 ps) intrinsics
   = get_camera_params uv (Pose44 (map equivalent_pose44 ps)) intrinsics"
  unfolding get_camera_params_def pose_p_equivalent pose_cam_loc_equivalent pose_p.simps
  by (rule refl)

subsection \<open>Weighted bilinear sampler\<close>

lemma mask_where_empty:
  assumes "\<forall>i<h. \<forall>j<w. f i j = 0"
  shows "mask_where (Field2 h w f) = []"
proof -
  have "filter (\<lambda>j. f i j \<noteq> 0) [0..<w] = []" if "i < h" for i
    using assms that by (simp add: filter_empty_conv)
  then show ?thesis
    by simp
qed

lemma length_rand2: "length (rand2 g pos k) = k"
  by (simp add: rand2_def)

lemma rand_value_bounds:
  assumes "rand_value u"
  shows "0 \<le> u" and "u < 1" and "u \<le> 1 - 1 / 2 ^ 53"
proof -
  show "0 \<le> u" and "u < 1"
    using assms by (simp_all add: rand_value_def)
  have i: "real_of_int \<lfloor>u * 2 ^ 53\<rfloor> = u * 2 ^ 53" and "u * 2 ^ 53 < 2 ^ 53"
    using assms by (simp_all add: rand_value_def)
  then have "real_of_int \<lfloor>u * 2 ^ 53\<rfloor> < real_of_int (2 ^ 53)"
    by simp
  then have "\<lfloor>u * 2 ^ 53\<rfloor> < 2 ^ 53"
    by (simp only: of_int_less_iff)
  then have "\<lfloor>u * 2 ^ 53\<rfloor> \<le> 2 ^ 53 - 1"
    by simp
  then have "real_of_int \<lfloor>u * 2 ^ 53\<rfloor> \<le> real_of_int (2 ^ 53 - 1)"
    by (simp only: of_int_le_iff)
  then have "u * 2 ^ 53 \<le> 2 ^ 53 - 1"
    unfolding i by simp
  then show "u \<le> 1 - 1 / 2 ^ 53"
    by (simp add: field_simps)
qed

lemma nth_rand2:
  "i < k \<Longrightarrow> rand2 g pos k ! i = (g (pos + 2 * i), g (pos + 2 * i + 1))"
  by (simp add: rand2_def)

lemma rand2_values:
  assumes "\<forall>n. rand_value (g n)" and "u \<in> set (rand2 g pos k)"
  shows "rand_value (fst u)" and "rand_value (snd u)"
  using assms by (auto simp: rand2_def)

lemma mask_where_in_shape:
  assumes "(i, j) \<in> set (mask_where m)"
  shows "i < fst (field_shape m) \<and> j < snd (field_shape m)"
  using assms by (cases m) auto

lemma bbox_min_le_max:
  assumes "wh \<noteq> []"
  shows "fst (bbox_min wh) \<le> fst (bbox_max wh)" and "snd (bbox_min wh) \<le> snd (bbox_max wh)"
  using assms by (simp_all add: bbox_min_def bbox_max_def)

lemma bbox_max_in_shape:
  assumes "mask_where m \<noteq> []"
  shows "fst (bbox_max (mask_where m)) < fst (field_shape m)"
    and "snd (bbox_max (mask_where m)) < snd (field_shape m)"
proof -
  have ne: "set (map fst (mask_where m)) \<noteq> {}" "set (map snd (mask_where m)) \<noteq> {}"
    using assms by simp_all
  have "Max (set (map fst (mask_where m))) \<in> set (map fst (mask_where m))"
    by (rule Max_in [OF _ ne(1)]) simp
  then show "fst (bbox_max (mask_where m)) < fst (field_shape m)"
    using mask_where_in_shape [of _ _ m] by (auto simp: bbox_max_def)
  have "Max (set (map snd (mask_where m))) \<in> set (map snd (mask_where m))"
    by (rule Max_in [OF _ ne(2)]) simp
  then show "snd (bbox_max (mask_where m)) < snd (field_shape m)"
    using mask_where_in_shape [of _ _ m] by (auto simp: bbox_max_def)
qed

text \<open>
  One axis of a coordinate drawn in the box, \<open>fl64 (fl64 (u * (hi - lo)) + lo)\<close>, and of
  one drawn over the image, \<open>fl64 (u * (n - 1))\<close>, for integers below \<open>2^53\<close>.
\<close>

lemma bbox_axis_range:
  fixes a :: real and lo hi :: nat
  assumes "0 \<le> a" "a \<le> 1" "lo \<le> hi" "hi < 2 ^ 53"
  shows "real lo \<le> fl64 (fl64 (a * fl64 (real hi - real lo)) + fl64 (real lo))"
    and "fl64 (fl64 (a * fl64 (real hi - real lo)) + fl64 (real lo)) \<le> real hi"
proof -
  have hi: "\<bar>int hi\<bar> < 2 ^ 53" and lo: "\<bar>int lo\<bar> < 2 ^ 53"
    and d: "\<bar>int hi - int lo\<bar> < 2 ^ 53"
    using assms(3,4) by (simp_all add: of_nat_less_numeral_power_cancel_iff)
  have fd: "fl64 (real hi - real lo) = real_of_int (int hi - int lo)"
    using fl64_of_int [OF d] by simp
  have fl: "fl64 (real lo) = real_of_int (int lo)"
    using fl64_of_int [OF lo] by simp
  have d0: "0 \<le> real_of_int (int hi - int lo)"
    using assms(3) by simp
  have p0: "real_of_int 0 \<le> a * real_of_int (int hi - int lo)"
    using assms(1) d0 by simp
  have "a * real_of_int (int hi - int lo) \<le> 1 * real_of_int (int hi - int lo)"
    using assms(2) d0 by (intro mult_right_mono) simp_all
  then have p1: "a * real_of_int (int hi - int lo) \<le> real_of_int (int hi - int lo)"
    by simp
  have q: "real_of_int 0 \<le> fl64 (a * real_of_int (int hi - int lo))"
          "fl64 (a * real_of_int (int hi - int lo)) \<le> real_of_int (int hi - int lo)"
    using fl64_between_ints [OF p0 p1 _ d] by simp_all
  have s0: "real_of_int (int lo) \<le> fl64 (a * real_of_int (int hi - int lo)) + real_of_int (int lo)"
    using q(1) by simp
  have s1: "fl64 (a * real_of_int (int hi - int lo)) + real_of_int (int lo) \<le> real_of_int (int hi)"
    using q(2) by simp
  have "real_of_int (int lo) \<le> fl64 (fl64 (a * real_of_int (int hi - int lo)) + real_of_int (int lo))"
       "fl64 (fl64 (a * real_of_int (int hi - int lo)) + real_of_int (int lo)) \<le> real_of_int (int hi)"
    using fl64_between_ints [OF s0 s1 lo hi] by simp_all
  then show "real lo \<le> fl64 (fl64 (a * fl64 (real hi - real lo)) + fl64 (real lo))"
    and "fl64 (fl64 (a * fl64 (real hi - real lo)) + fl64 (real lo)) \<le> real hi"
    unfolding fd fl by simp_all
qed

lemma bbox_axis_in_grid:
  fixes a :: real and lo hi :: nat and n :: int
  assumes "0 \<le> a" "a \<le> 1" "lo \<le> hi" "int hi \<le> n - 2" "n < 2 ^ 53"
  shows "0 \<le> \<lfloor>fl64 (fl64 (a * fl64 (real hi - real lo)) + fl64 (real lo))\<rfloor>"
    and "\<lfloor>fl64 (fl64 (a * fl64 (real hi - real lo)) + fl64 (real lo))\<rfloor> + 1 \<le> n - 1"
proof -
  let ?x = "fl64 (fl64 (a * fl64 (real hi - real lo)) + fl64 (real lo))"
  have "int hi < 2 ^ 53"
    using assms(4,5) by linarith
  then have h: "hi < 2 ^ 53"
    by (simp add: of_nat_less_numeral_power_cancel_iff)
  have lo: "real lo \<le> ?x" and hi: "?x \<le> real hi"
    using bbox_axis_range [OF assms(1-3) h] by simp_all
  have "0 \<le> ?x"
    using lo by (meson of_nat_0_le_iff order_trans)
  then show "0 \<le> \<lfloor>?x\<rfloor>"
    by (simp only: zero_le_floor)
  have "?x \<le> of_int (int hi)"
    using hi by simp
  then have "\<lfloor>?x\<rfloor> \<le> int hi"
    by (metis floor_mono floor_of_int)
  then show "\<lfloor>?x\<rfloor> + 1 \<le> n - 1"
    using assms(4) by linarith
qed

lemma uniform_axis_in_grid:
  fixes a :: real and n :: int
  assumes "rand_value a" "2 \<le> n" "n < 2 ^ 53"
  shows "0 \<le> \<lfloor>fl64 (a * fl64 (real_of_int (n - 1)))\<rfloor>"
    and "\<lfloor>fl64 (a * fl64 (real_of_int (n - 1)))\<rfloor> + 1 \<le> n - 1"
proof -
  have k: "1 \<le> n - 1" "n - 1 < 2 ^ 53" "\<bar>n - 1\<bar> < 2 ^ 53"
    using assms(2,3) by simp_all
  have fk: "fl64 (real_of_int (n - 1)) = real_of_int (n - 1)"
    by (rule fl64_of_int [OF k(3)])
  have a: "0 \<le> a" "a \<le> 1 - 1 / 2 ^ 53"
    using rand_value_bounds [OF assms(1)] by simp_all
  have less: "fl64 (a * real_of_int (n - 1)) < real_of_int (n - 1)"
    by (rule fl64_scaled_draw_less [OF a k(1,2)])
  have "real_of_int 0 \<le> a * real_of_int (n - 1)"
    using a(1) k(1) by simp
  moreover have "a * real_of_int (n - 1) \<le> real_of_int (n - 1)"
    using less a(1) k(1) rand_value_bounds(2) [OF assms(1)]
    by (simp add: mult_left_le_one_le)
  ultimately have "real_of_int 0 \<le> fl64 (a * real_of_int (n - 1))"
    using fl64_between_ints(1) [of 0 "a * real_of_int (n - 1)" "n - 1"] k(3) by simp
  then show "0 \<le> \<lfloor>fl64 (a * fl64 (real_of_int (n - 1)))\<rfloor>"
    unfolding fk by (simp only: zero_le_floor of_int_0)
  have "\<lfloor>fl64 (a * real_of_int (n - 1))\<rfloor> < n - 1"
    using less by (simp only: floor_less_iff)
  then show "\<lfloor>fl64 (a * fl64 (real_of_int (n - 1)))\<rfloor> + 1 \<le> n - 1"
    unfolding fk by linarith
qed

text \<open>A coordinate drawn over the image lies between 0 and \<open>n - 1\<close>, whatever their order.\<close>

lemma uniform_axis_between:
  fixes a :: real and n :: int
  assumes "0 \<le> a" "a \<le> 1" "\<bar>n - 1\<bar> < 2 ^ 53"
  shows "real_of_int (min 0 (n - 1)) \<le> fl64 (a * fl64 (real_of_int (n - 1)))"
    and "fl64 (a * fl64 (real_of_int (n - 1))) \<le> real_of_int (max 0 (n - 1))"
proof -
  have fk: "fl64 (real_of_int (n - 1)) = real_of_int (n - 1)"
    by (rule fl64_of_int [OF assms(3)])
  have m: "\<bar>min 0 (n - 1)\<bar> < 2 ^ 53" "\<bar>max 0 (n - 1)\<bar> < 2 ^ 53"
    using assms(3) unfolding min_def max_def by (simp_all split: if_splits) linarith+
  have "real_of_int (min 0 (n - 1)) \<le> a * real_of_int (n - 1)
      \<and> a * real_of_int (n - 1) \<le> real_of_int (max 0 (n - 1))"
  proof (cases "0 \<le> n - 1")
    case True
    then have k: "0 \<le> real_of_int (n - 1)"
      by simp
    have "a * real_of_int (n - 1) \<le> 1 * real_of_int (n - 1)"
      using assms(2) k by (intro mult_right_mono) simp_all
    moreover have "0 \<le> a * real_of_int (n - 1)"
      using assms(1) k by simp
    ultimately show ?thesis
      using True by (simp add: min_def max_def)
  next
    case False
    then have k: "real_of_int (n - 1) \<le> 0"
      by simp
    have "1 * real_of_int (n - 1) \<le> a * real_of_int (n - 1)"
      using assms(2) k by (intro mult_right_mono_neg) simp_all
    moreover have "a * real_of_int (n - 1) \<le> 0"
      using assms(1) k by (simp add: mult_nonneg_nonpos)
    ultimately show ?thesis
      using False by (simp add: min_def max_def)
  qed
  then show "real_of_int (min 0 (n - 1)) \<le> fl64 (a * fl64 (real_of_int (n - 1)))"
    and "fl64 (a * fl64 (real_of_int (n - 1))) \<le> real_of_int (max 0 (n - 1))"
    unfolding fk using fl64_between_ints [OF _ _ m] by blast+
qed

lemma samples_bbox_in_grid:
  assumes us: "\<forall>u \<in> set us. rand_value (fst u) \<and> rand_value (snd u)"
    and le: "fst bmin \<le> fst bmax" "snd bmin \<le> snd bmax"
    and room: "int (fst bmax) \<le> fst img_size - 2" "int (snd bmax) \<le> snd img_size - 2"
    and size: "fst img_size < 2 ^ 53" "snd img_size < 2 ^ 53"
    and s: "s \<in> set (samples_bbox us bmin bmax)"
  shows "in_grid img_size s"
proof -
  obtain a b where ab: "(a, b) \<in> set us"
    and s_eq: "s = (fl64 (fl64 (a * fl64 (real (fst bmax) - real (fst bmin)))
                          + fl64 (real (fst bmin))),
                    fl64 (fl64 (b * fl64 (real (snd bmax) - real (snd bmin)))
                          + fl64 (real (snd bmin))))"
    using s by (auto simp: samples_bbox_def)
  have "rand_value a" "rand_value b"
    using us ab by auto
  then have a: "0 \<le> a" "a \<le> 1" and b: "0 \<le> b" "b \<le> 1"
    using rand_value_bounds(1,2) [of a] rand_value_bounds(1,2) [of b] by simp_all
  show ?thesis
    unfolding in_grid_def s_eq fst_conv snd_conv
    using bbox_axis_in_grid [OF a le(1) room(1) size(1)]
          bbox_axis_in_grid [OF b le(2) room(2) size(2)]
    by blast
qed

lemma samples_uniform_in_grid:
  assumes us: "\<forall>u \<in> set us. rand_value (fst u) \<and> rand_value (snd u)"
    and size: "2 \<le> fst img_size" "2 \<le> snd img_size"
              "fst img_size < 2 ^ 53" "snd img_size < 2 ^ 53"
    and s: "s \<in> set (samples_uniform us img_size)"
  shows "in_grid img_size s"
proof -
  obtain a b where ab: "(a, b) \<in> set us"
    and s_eq: "s = (fl64 (a * fl64 (real_of_int (fst img_size - 1))),
                    fl64 (b * fl64 (real_of_int (snd img_size - 1))))"
    using s by (auto simp: samples_uniform_def)
  have a: "rand_value a" and b: "rand_value b"
    using us ab by auto
  show ?thesis
    unfolding in_grid_def s_eq fst_conv snd_conv
    using uniform_axis_in_grid [OF a size(1,3)] uniform_axis_in_grid [OF b size(2,4)]
    by blast
qed

lemma np_index_in_range:
  "0 \<le> i \<Longrightarrow> i < int n \<Longrightarrow> np_index n i = Inr (nat i)"
  by (simp add: np_index_def)

lemma interp1_in_grid:
  assumes "in_grid (int h, int w) s"
  shows "\<exists>v. interp1 h w f s = Inr v"
proof -
  obtain x y where s: "s = (x, y)"
    by (cases s) auto
  have x: "0 \<le> \<lfloor>x\<rfloor>" "\<lfloor>x\<rfloor> + 1 < int h" and y: "0 \<le> \<lfloor>y\<rfloor>" "\<lfloor>y\<rfloor> + 1 < int w"
    using assms unfolding in_grid_def s by simp_all
  have "np_index h \<lfloor>x\<rfloor> = Inr (nat \<lfloor>x\<rfloor>)" "np_index h (\<lfloor>x\<rfloor> + 1) = Inr (nat (\<lfloor>x\<rfloor> + 1))"
       "np_index w \<lfloor>y\<rfloor> = Inr (nat \<lfloor>y\<rfloor>)" "np_index w (\<lfloor>y\<rfloor> + 1) = Inr (nat (\<lfloor>y\<rfloor> + 1))"
    using x y by (simp_all add: np_index_in_range)
  then show ?thesis
    unfolding interp1_def s by (simp add: Let_def)
qed

lemma sequence_err_all_Inr:
  assumes "\<forall>r \<in> set rs. \<exists>v. r = Inr v"
  shows "\<exists>vs. sequence_err rs = Inr vs"
  using assms
proof (induction rs)
  case Nil
  then show ?case by simp
next
  case (Cons r rs)
  then obtain v vs where "r = Inr v" "sequence_err rs = Inr vs"
    by auto
  then show ?case by simp
qed

lemma sequence_err_Inl:
  assumes "sequence_err rs = Inl e"
  shows "Inl e \<in> set rs"
  using assms
proof (induction rs)
  case Nil
  then show ?case by simp
next
  case (Cons r rs)
  then show ?case
    by (cases r) (auto split: sum.splits)
qed

lemma sequence_err_Inr:
  assumes "sequence_err rs = Inr vs"
  shows "rs = map Inr vs"
  using assms
proof (induction rs arbitrary: vs)
  case Nil
  then show ?case by simp
next
  case (Cons r rs)
  then show ?case
    by (cases r) (auto split: sum.splits)
qed

lemma bilinear_in_grid:
  assumes "\<forall>s \<in> set indices. in_grid (int h, int w) s"
  shows "\<exists>vs. bilinear_interpolation indices h w f = Inr vs"
  unfolding bilinear_interpolation_def
  using assms by (intro sequence_err_all_Inr) (auto simp: interp1_in_grid)

lemma bilinear_length:
  assumes "bilinear_interpolation indices h w f = Inr vs"
  shows "length vs = length indices"
proof -
  have "map (interp1 h w f) indices = map Inr vs"
    using assms unfolding bilinear_interpolation_def by (rule sequence_err_Inr)
  then have "length (map (interp1 h w f) indices) = length (map Inr vs :: (error + real) list)"
    by simp
  then show ?thesis by simp
qed

lemma sample_field_in_grid:
  assumes "\<forall>s \<in> set indices. in_grid (int (fst (field_shape fld)), int (snd (field_shape fld))) s"
  shows "sample_field indices fld \<noteq> Inl IndexError"
proof (cases fld)
  case (Field2 h w f)
  then show ?thesis
    using bilinear_in_grid [of indices h w f] assms by auto
next
  case (Field3 h w c f)
  have "\<exists>cols. sequence_err
             (map (\<lambda>i. bilinear_interpolation indices h w (\<lambda>a b. f a b i)) [0..<c]) = Inr cols"
    using assms Field3 by (intro sequence_err_all_Inr) (auto simp: bilinear_in_grid)
  then show ?thesis
    using Field3 by (auto split: if_splits)
qed

lemma sample_all_in_grid:
  assumes "\<forall>(key, val) \<in> set data.
             \<forall>s \<in> set indices. in_grid (int (fst (field_shape val)), int (snd (field_shape val))) s"
  shows "sample_all indices data \<noteq> Inl IndexError"
proof
  assume "sample_all indices data = Inl IndexError"
  then have "Inl IndexError \<in> set (map (\<lambda>(key, val). case sample_field indices val of
                               Inl e \<Rightarrow> Inl e
                             | Inr new_val \<Rightarrow> Inr (key, new_val)) data)"
    unfolding sample_all_def by (rule sequence_err_Inl)
  then obtain key val where kv: "(key, val) \<in> set data"
    and "(case sample_field indices val of Inl e \<Rightarrow> Inl e | Inr new_val \<Rightarrow> Inr (key, new_val))
         = Inl IndexError"
    by auto
  then have "sample_field indices val = Inl IndexError"
    by (auto split: sum.splits)
  then show False
    using sample_field_in_grid [of indices val] assms kv by auto
qed

lemma sequence_err_length:
  assumes "sequence_err rs = Inr vs"
  shows "length vs = length rs"
  using sequence_err_Inr [OF assms] by simp

lemma sample_field_rows:
  assumes "sample_field indices fld = Inr out"
  shows "sampled_rows out = length indices \<and> channels_preserved fld out"
proof (cases fld)
  case (Field2 h w f)
  then obtain vs where "bilinear_interpolation indices h w f = Inr vs" "out = Sampled1 vs"
    using assms by (auto split: sum.splits)
  then show ?thesis
    using Field2 bilinear_length by simp
next
  case (Field3 h w c f)
  then obtain cols where cols: "sequence_err
             (map (\<lambda>i. bilinear_interpolation indices h w (\<lambda>a b. f a b i)) [0..<c]) = Inr cols"
    and out: "out = SampledC (map (\<lambda>n. map (\<lambda>col. col ! n) cols) [0..<length indices])"
    using assms by (auto split: sum.splits if_splits)
  have "length cols = c"
    using sequence_err_length [OF cols] by simp
  then show ?thesis
    using Field3 out by (simp add: list_all_iff)
qed

lemma sample_all_Inr:
  assumes "sample_all indices data = Inr output"
  shows "map fst output = map fst data"
    and "\<forall>i<length data. sample_field indices (snd (data ! i)) = Inr (snd (output ! i))"
proof -
  let ?step = "\<lambda>(key, val). case sample_field indices val of
                               Inl e \<Rightarrow> Inl e
                             | Inr new_val \<Rightarrow> Inr (key, new_val)"
  have eq: "map ?step data = map Inr output"
    using assms unfolding sample_all_def by (rule sequence_err_Inr)
  then have len: "length data = length output"
    by (metis length_map)
  have el: "?step (data ! i) = Inr (output ! i)" if "i < length data" for i
  proof -
    have "map ?step data ! i = (map Inr output :: (error + string \<times> sampled) list) ! i"
      by (simp only: eq)
    then show ?thesis
      using that len by (simp only: nth_map)
  qed
  have both: "fst (output ! i) = fst (data ! i)
              \<and> sample_field indices (snd (data ! i)) = Inr (snd (output ! i))"
    if "i < length data" for i
    using el [OF that] by (cases "data ! i"; cases "output ! i") (auto split: sum.splits)
  show "map fst output = map fst data"
    using len both by (intro nth_equalityI) simp_all
  show "\<forall>i<length data. sample_field indices (snd (data ! i)) = Inr (snd (output ! i))"
    using both by blast
qed

lemma weighted_sampling_no_mask:
  "map_of data ''object_mask'' = None \<Longrightarrow>
   weighted_sampling data img_size num_sample bbox_ratio g pos = (Inl KeyError, pos)"
  by (simp add: weighted_sampling_def)

lemma weighted_sampling_empty:
  "map_of data ''object_mask'' = Some m \<Longrightarrow> mask_where m = [] \<Longrightarrow>
   weighted_sampling data img_size num_sample bbox_ratio g pos = (Inl ValueError, pos)"
  by (simp add: weighted_sampling_def)

lemma weighted_sampling_negative_bbox:
  "map_of data ''object_mask'' = Some m \<Longrightarrow> mask_where m \<noteq> [] \<Longrightarrow>
   num_sample_bbox num_sample bbox_ratio < 0 \<Longrightarrow>
   weighted_sampling data img_size num_sample bbox_ratio g pos = (Inl ValueError, pos)"
  by (simp add: weighted_sampling_def Let_def)

lemma weighted_sampling_mask3:
  "map_of data ''object_mask'' = Some m \<Longrightarrow> mask_where m \<noteq> [] \<Longrightarrow>
   0 \<le> num_sample_bbox num_sample bbox_ratio \<Longrightarrow> \<not> is_2d m \<Longrightarrow>
   weighted_sampling data img_size num_sample bbox_ratio g pos
     = (Inl ValueError, pos + 2 * nat (num_sample_bbox num_sample bbox_ratio))"
  by (simp add: weighted_sampling_def Let_def)

lemma weighted_sampling_negative_uniform:
  "map_of data ''object_mask'' = Some m \<Longrightarrow> mask_where m \<noteq> [] \<Longrightarrow>
   0 \<le> num_sample_bbox num_sample bbox_ratio \<Longrightarrow> is_2d m \<Longrightarrow>
   num_sample - num_sample_bbox num_sample bbox_ratio < 0 \<Longrightarrow>
   weighted_sampling data img_size num_sample bbox_ratio g pos
     = (Inl ValueError, pos + 2 * nat (num_sample_bbox num_sample bbox_ratio))"
  by (simp add: weighted_sampling_def Let_def)

lemma weighted_sampling_samples:
  "map_of data ''object_mask'' = Some m \<Longrightarrow> mask_where m \<noteq> [] \<Longrightarrow>
   0 \<le> num_sample_bbox num_sample bbox_ratio \<Longrightarrow> is_2d m \<Longrightarrow>
   0 \<le> num_sample - num_sample_bbox num_sample bbox_ratio \<Longrightarrow>
   weighted_sampling data img_size num_sample bbox_ratio g pos
     = (case sample_all
               (samples_bbox (rand2 g pos (nat (num_sample_bbox num_sample bbox_ratio)))
                  (bbox_min (mask_where m)) (bbox_max (mask_where m))
                @ samples_uniform
                    (rand2 g (pos + 2 * nat (num_sample_bbox num_sample bbox_ratio))
                       (nat (num_sample - num_sample_bbox num_sample bbox_ratio)))
                    img_size)
               data of
          Inl e \<Rightarrow> (Inl e, pos + 2 * nat (num_sample_bbox num_sample bbox_ratio)
                              + 2 * nat (num_sample - num_sample_bbox num_sample bbox_ratio))
        | Inr output \<Rightarrow>
            (Inr (output,
                  map (\<lambda>i. i + nat (num_sample_bbox num_sample bbox_ratio))
                    (get_index_outside_of_bbox
                       (samples_uniform
                          (rand2 g (pos + 2 * nat (num_sample_bbox num_sample bbox_ratio))
                             (nat (num_sample - num_sample_bbox num_sample bbox_ratio)))
                          img_size)
                       (bbox_min (mask_where m)) (bbox_max (mask_where m)))),
             pos + 2 * nat (num_sample_bbox num_sample bbox_ratio)
                 + 2 * nat (num_sample - num_sample_bbox num_sample bbox_ratio)))"
  by (simp add: weighted_sampling_def Let_def)

lemma weighted_sampling_returnsD:
  assumes "weighted_sampling data img_size num_sample bbox_ratio g pos
           = (Inr (output, index_outside), pos')"
  shows "\<exists>m. map_of data ''object_mask'' = Some m
           \<and> mask_where m \<noteq> [] \<and> is_2d m
           \<and> 0 \<le> num_sample_bbox num_sample bbox_ratio
           \<and> num_sample_bbox num_sample bbox_ratio \<le> num_sample
           \<and> sample_all
                (samples_bbox (rand2 g pos (nat (num_sample_bbox num_sample bbox_ratio)))
                   (bbox_min (mask_where m)) (bbox_max (mask_where m))
                 @ samples_uniform
                     (rand2 g (pos + 2 * nat (num_sample_bbox num_sample bbox_ratio))
                        (nat (num_sample - num_sample_bbox num_sample bbox_ratio)))
                     img_size)
                data = Inr output
           \<and> pos' = pos + 2 * nat (num_sample_bbox num_sample bbox_ratio)
                        + 2 * nat (num_sample - num_sample_bbox num_sample bbox_ratio)"
proof -
  obtain m where m: "map_of data ''object_mask'' = Some m"
    using assms weighted_sampling_no_mask [of data img_size num_sample bbox_ratio g pos]
    by (cases "map_of data ''object_mask''") auto
  have ne: "mask_where m \<noteq> []"
    using assms weighted_sampling_empty [OF m, of img_size num_sample bbox_ratio g pos]
    by auto
  have nb: "0 \<le> num_sample_bbox num_sample bbox_ratio"
    using assms weighted_sampling_negative_bbox [OF m ne, of num_sample bbox_ratio img_size g pos]
    by (cases "0 \<le> num_sample_bbox num_sample bbox_ratio") auto
  have d2: "is_2d m"
    using assms weighted_sampling_mask3 [OF m ne nb, of img_size g pos]
    by (cases "is_2d m") auto
  have nu: "0 \<le> num_sample - num_sample_bbox num_sample bbox_ratio"
    using assms weighted_sampling_negative_uniform [OF m ne nb d2, of img_size g pos]
    by (cases "0 \<le> num_sample - num_sample_bbox num_sample bbox_ratio") auto
  show ?thesis
    using assms m ne nb d2 nu
    unfolding weighted_sampling_samples [OF m ne nb d2 nu, of img_size g pos]
    by (auto split: sum.splits)
qed

lemma py_int_truncates:
  assumes "0 \<le> py_int x"
  shows "real_of_int (py_int x) \<le> \<bar>x\<bar> \<and> \<bar>x\<bar> < real_of_int (py_int x) + 1"
proof (cases "0 \<le> x")
  case True
  then show ?thesis
    unfolding py_int_def by (simp add: abs_of_nonneg)
next
  case False
  then have c: "py_int x = \<lceil>x\<rceil>"
    by (simp add: py_int_def)
  have "\<lceil>x\<rceil> \<le> 0"
    using False by (simp add: ceiling_le_iff)
  then have z: "\<lceil>x\<rceil> = 0"
    using assms c by linarith
  then have "- 1 < x"
    by (simp add: ceiling_eq_iff)
  then show ?thesis
    using False unfolding c z by simp
qed

text \<open>
  C6. Empty mask. When the object mask has no nonzero pixel, the call ends in an
  exception (the \<^verbatim>\<open>ValueError\<close> of the minimum over an empty array) and returns
  nothing; the generator has not moved, so no coordinate was drawn, and no field was
  resampled.
\<close>

theorem empty_mask_fails:
  assumes "map_of data ''object_mask'' = Some (Field2 h w f)"
    and "\<forall>i<h. \<forall>j<w. f i j = 0"
  shows "weighted_sampling data img_size num_sample bbox_ratio g pos = (Inl ValueError, pos)"
  using assms(1) mask_where_empty [OF assms(2)]
  by (simp add: weighted_sampling_def)

theorem empty_mask_fails_witness:
  "weighted_sampling
     [(''rgb'', Field3 2 2 3 (\<lambda>i j k. 1)), (''object_mask'', Field2 2 2 (\<lambda>i j. 0))]
     (2, 2) 10 (9 / 10) (\<lambda>n. 1 / 2) 0 = (Inl ValueError, 0)"
  using empty_mask_fails
    [of "[(''rgb'', Field3 2 2 3 (\<lambda>i j k. 1)), (''object_mask'', Field2 2 2 (\<lambda>i j. 0))]"
        2 2 "\<lambda>i j. 0" "(2, 2)" 10 "9 / 10" "\<lambda>n. 1 / 2" 0]
  by simp

lemma length_samples_bbox: "length (samples_bbox us bmin bmax) = length us"
  by (simp add: samples_bbox_def)

lemma length_samples_uniform: "length (samples_uniform us img_size) = length us"
  by (simp add: samples_uniform_def)

text \<open>
  C10, as the code has it. With every condition of the claim met (a 3x3 image and
  mask, a bounding box from 1 to 2 on both axes, so non-degenerate and within the grid,
  and a draw below 1), the float64 sum \<open>u * (max - min) + min\<close> for the draw
  \<open>u = 1 - 2^-53\<close> rounds up to \<open>max = 2\<close>; then \<open>floor + 1 = 3\<close> is outside
  \<open>[0, 2]\<close> and the call ends in \<^verbatim>\<open>IndexError\<close>.
\<close>

theorem sampling_rounding_counterexample:
  "field_shape (Field2 3 3 (\<lambda>i j. if 1 \<le> i \<and> 1 \<le> j then 1 else 0)) = (3, 3)
   \<and> bbox_min (mask_where (Field2 3 3 (\<lambda>i j. if 1 \<le> i \<and> 1 \<le> j then 1 else 0))) = (1, 1)
   \<and> bbox_max (mask_where (Field2 3 3 (\<lambda>i j. if 1 \<le> i \<and> 1 \<le> j then 1 else 0))) = (2, 2)
   \<and> rand_value (1 - 1 / 2 ^ 53)
   \<and> samples_bbox (rand2 (\<lambda>n. 1 - 1 / 2 ^ 53) 0 1) (1, 1) (2, 2) = [(2, 2)]
   \<and> \<not> in_grid (3, 3) (2, 2)
   \<and> weighted_sampling
        [(''object_mask'', Field2 3 3 (\<lambda>i j. if 1 \<le> i \<and> 1 \<le> j then 1 else 0))]
        (3, 3) 1 1 (\<lambda>n. 1 - 1 / 2 ^ 53) 0
      = (Inl IndexError, 2)"
  by (intro conjI; code_simp)

text \<open>
  C10, amended. Let the image size be at least 2 on each axis (and below \<open>2^31\<close>, the
  range of the index cast), every field of \<open>data\<close> (the mask among them, so its nonzero
  pixels lie within the grid) have that spatial shape, the mask be non-empty, and its
  bounding box on each axis have \<open>max \<le> size - 2\<close>; let every draw of the generator be
  a float64 in \<open>[0, 1)\<close>. Then for every coordinate generated, in the box or over the
  image, whatever the counts, \<open>floor\<close> and \<open>floor + 1\<close> lie within \<open>[0, size - 1]\<close> on
  each axis, and the call never ends in \<^verbatim>\<open>IndexError\<close>.
\<close>

theorem sampling_in_bounds:
  assumes size: "2 \<le> fst img_size" "2 \<le> snd img_size"
                "fst img_size < 2 ^ 31" "snd img_size < 2 ^ 31"
    and shapes: "\<forall>(key, val) \<in> set data.
                   int (fst (field_shape val)) = fst img_size
                 \<and> int (snd (field_shape val)) = snd img_size"
    and m: "map_of data ''object_mask'' = Some m"
    and ne: "mask_where m \<noteq> []"
    and room:
      "int (fst (bbox_max (mask_where m))) \<le> fst img_size - 2"
      "int (snd (bbox_max (mask_where m))) \<le> snd img_size - 2"
    and g: "\<forall>n. rand_value (g n)"
  shows "(\<forall>k1 k2 p1 p2.
           \<forall>s \<in> set (samples_bbox (rand2 g p1 k1) (bbox_min (mask_where m))
                         (bbox_max (mask_where m))
                       @ samples_uniform (rand2 g p2 k2) img_size).
             in_grid img_size s)
       \<and> fst (weighted_sampling data img_size num_sample bbox_ratio g pos) \<noteq> Inl IndexError"
proof -
  let ?bmin = "bbox_min (mask_where m)" and ?bmax = "bbox_max (mask_where m)"
  have big: "fst img_size < 2 ^ 53" "snd img_size < 2 ^ 53"
    using size(3,4) by simp_all
  have us: "\<forall>u \<in> set (rand2 g p k). rand_value (fst u) \<and> rand_value (snd u)"
    for p k
    using rand2_values [OF g] by blast
  have grid: "in_grid img_size s"
    if mem: "s \<in> set (samples_bbox (rand2 g p1 k1) ?bmin ?bmax
                  @ samples_uniform (rand2 g p2 k2) img_size)" for s k1 k2 p1 p2
  proof -
    consider "s \<in> set (samples_bbox (rand2 g p1 k1) ?bmin ?bmax)"
      | "s \<in> set (samples_uniform (rand2 g p2 k2) img_size)"
      using mem by auto
    then show ?thesis
    proof cases
      case 1
      then show ?thesis
        by (rule samples_bbox_in_grid [OF us bbox_min_le_max [OF ne] room big])
    next
      case 2
      then show ?thesis
        by (rule samples_uniform_in_grid [OF us size(1,2) big])
    qed
  qed
  have all_grid: "\<forall>(key, val) \<in> set data.
        \<forall>s \<in> set (samples_bbox (rand2 g p1 k1) ?bmin ?bmax
                      @ samples_uniform (rand2 g p2 k2) img_size).
          in_grid (int (fst (field_shape val)), int (snd (field_shape val))) s"
    for k1 k2 p1 p2
    using shapes grid [of _ p1 k1 p2 k2] by auto
  have "fst (weighted_sampling data img_size num_sample bbox_ratio g pos) \<noteq> Inl IndexError"
  proof (cases "0 \<le> num_sample_bbox num_sample bbox_ratio \<and> is_2d m
                \<and> 0 \<le> num_sample - num_sample_bbox num_sample bbox_ratio")
    case True
    then have nb: "0 \<le> num_sample_bbox num_sample bbox_ratio" and d2: "is_2d m"
      and nu: "0 \<le> num_sample - num_sample_bbox num_sample bbox_ratio"
      by simp_all
    show ?thesis
      unfolding weighted_sampling_samples [OF m ne nb d2 nu, of img_size g pos]
      using sample_all_in_grid [OF all_grid]
      by (auto split: sum.splits)
  next
    case False
    then consider "num_sample_bbox num_sample bbox_ratio < 0"
      | "0 \<le> num_sample_bbox num_sample bbox_ratio" "\<not> is_2d m"
      | "0 \<le> num_sample_bbox num_sample bbox_ratio" "is_2d m"
        "num_sample - num_sample_bbox num_sample bbox_ratio < 0"
      by linarith
    then show ?thesis
    proof cases
      case 1
      then show ?thesis
        by (simp add: weighted_sampling_negative_bbox [OF m ne])
    next
      case 2
      then show ?thesis
        by (simp add: weighted_sampling_mask3 [OF m ne])
    next
      case 3
      then show ?thesis
        by (simp add: weighted_sampling_negative_uniform [OF m ne])
    qed
  qed
  then show ?thesis
    using grid by blast
qed

theorem sampling_in_bounds_witness:
  "list_all (in_grid (3, 3))
     (samples_bbox (rand2 (\<lambda>n. 1 - 1 / 2 ^ 53) 0 2)
        (bbox_min (mask_where (Field2 3 3 (\<lambda>i j. if i \<le> 1 \<and> j = 1 then 1 else 0))))
        (bbox_max (mask_where (Field2 3 3 (\<lambda>i j. if i \<le> 1 \<and> j = 1 then 1 else 0))))
      @ samples_uniform (rand2 (\<lambda>n. 1 - 1 / 2 ^ 53) 4 2) (3, 3))
   \<and> fst (weighted_sampling
            [(''object_mask'', Field2 3 3 (\<lambda>i j. if i \<le> 1 \<and> j = 1 then 1 else 0)),
             (''depth'', Field2 3 3 (\<lambda>i j. real (i + j)))]
            (3, 3) 4 (1 / 2) (\<lambda>n. 1 - 1 / 2 ^ 53) 0) \<noteq> Inl IndexError"
proof -
  let ?M = "Field2 3 3 (\<lambda>i j. if i \<le> 1 \<and> j = 1 then 1 else 0)"
  let ?D = "[(''object_mask'', ?M), (''depth'', Field2 3 3 (\<lambda>i j. real (i + j)))]"
  let ?g = "\<lambda>n::nat. 1 - 1 / 2 ^ 53 :: real"
  have size: "2 \<le> fst (3 :: int, 3 :: int)" "2 \<le> snd (3 :: int, 3 :: int)"
             "fst (3 :: int, 3 :: int) < 2 ^ 31" "snd (3 :: int, 3 :: int) < 2 ^ 31"
    by simp_all
  have shapes: "\<forall>(key, val) \<in> set ?D.
                   int (fst (field_shape val)) = fst (3 :: int, 3 :: int)
                 \<and> int (snd (field_shape val)) = snd (3 :: int, 3 :: int)"
    by simp
  have m: "map_of ?D ''object_mask'' = Some ?M"
    by simp
  have ne: "mask_where ?M \<noteq> []"
    by code_simp
  have room:
      "int (fst (bbox_max (mask_where ?M))) \<le> fst (3 :: int, 3 :: int) - 2"
      "int (snd (bbox_max (mask_where ?M))) \<le> snd (3 :: int, 3 :: int) - 2"
    by code_simp+
  have "rand_value (1 - 1 / 2 ^ 53)"
    by code_simp
  then have g: "\<forall>n. rand_value (?g n)"
    by simp
  from sampling_in_bounds [OF size shapes m ne room g, of 4 "1 / 2" 0]
  show ?thesis
    unfolding list_all_iff by blast
qed

lemma interp1_error:
  assumes "interp1 h w f s = Inl e"
  shows "e = IndexError"
proof -
  obtain x y where s: "s = (x, y)"
    by (cases s) auto
  show ?thesis
    using assms unfolding interp1_def s Let_def
    by (cases "np_index h \<lfloor>x\<rfloor>"; cases "np_index w \<lfloor>y\<rfloor>";
        cases "np_index h (\<lfloor>x\<rfloor> + 1)"; cases "np_index w (\<lfloor>y\<rfloor> + 1)") simp_all
qed

lemma bilinear_error:
  assumes "bilinear_interpolation indices h w f = Inl e"
  shows "e = IndexError"
proof -
  have "Inl e \<in> set (map (interp1 h w f) indices)"
    using assms unfolding bilinear_interpolation_def by (rule sequence_err_Inl)
  then obtain s where "interp1 h w f s = Inl e"
    by auto
  then show ?thesis
    by (rule interp1_error)
qed

lemma sample_field_error:
  assumes "sample_field indices fld = Inl e"
  shows "e = IndexError \<or> e = ValueError"
proof (cases fld)
  case (Field2 h w f)
  then have "bilinear_interpolation indices h w f = Inl e"
    using assms by (auto split: sum.splits)
  then show ?thesis
    using bilinear_error by blast
next
  case (Field3 h w c f)
  let ?cols = "sequence_err
             (map (\<lambda>i. bilinear_interpolation indices h w (\<lambda>a b. f a b i)) [0..<c])"
  show ?thesis
  proof (cases ?cols)
    case (Inl e')
    then have "Inl e' \<in> set (map (\<lambda>i. bilinear_interpolation indices h w (\<lambda>a b. f a b i))
                               [0..<c])"
      by (rule sequence_err_Inl)
    then have "e' = IndexError"
      using bilinear_error by auto
    then show ?thesis
      using assms Field3 Inl by simp
  next
    case (Inr cols)
    then show ?thesis
      using assms Field3 by (simp split: if_splits)
  qed
qed

lemma sample_all_error:
  assumes "sample_all indices data = Inl e"
  shows "e = IndexError \<or> e = ValueError"
proof -
  have "Inl e \<in> set (map (\<lambda>(key, val). case sample_field indices val of
                               Inl e \<Rightarrow> Inl e
                             | Inr new_val \<Rightarrow> Inr (key, new_val)) data)"
    using assms unfolding sample_all_def by (rule sequence_err_Inl)
  then have "\<exists>kv \<in> set data. sample_field indices (snd kv) = Inl e"
    by (force split: sum.splits)
  then show ?thesis
    using sample_field_error by blast
qed

lemma nth_samples_bbox:
  assumes "i < k"
  shows "samples_bbox (rand2 g pos k) bmin bmax ! i =
           (fl64 (fl64 (g (pos + 2 * i) * fl64 (real (fst bmax) - real (fst bmin)))
                  + fl64 (real (fst bmin))),
            fl64 (fl64 (g (pos + 2 * i + 1) * fl64 (real (snd bmax) - real (snd bmin)))
                  + fl64 (real (snd bmin))))"
  using assms by (simp add: samples_bbox_def length_rand2 nth_rand2)

lemma nth_samples_uniform:
  assumes "i < k"
  shows "samples_uniform (rand2 g pos k) img_size ! i =
           (fl64 (g (pos + 2 * i) * fl64 (real_of_int (fst img_size - 1))),
            fl64 (g (pos + 2 * i + 1) * fl64 (real_of_int (snd img_size - 1))))"
  using assms by (simp add: samples_uniform_def length_rand2 nth_rand2)

subsection \<open>Sample counts and sample coordinates\<close>

text \<open>
  C5, as the code has it. The number of coordinates drawn in the bounding box
  is \<^verbatim>\<open>int(num_sample * bbox_ratio)\<close>: the double-precision product, truncated
  toward zero. It is not the product rounded to the nearest integer. For
  \<open>num_sample = 3\<close> and \<open>bbox_ratio = 0.9\<close> (the double nearest to
  \<open>9 / 10\<close>) the code draws two coordinates in the box and one over the image,
  where rounding gives three and none: on a \<open>3 x 3\<close> mask whose only object
  pixel is the centre, with a generator that returns \<open>0\<close> at every draw, the
  third sample is \<open>(0, 0)\<close>, outside the box, and is reported as such.
\<close>

theorem sampler_round_counterexample:
  "num_sample_bbox 3 (fl64 (9 / 10)) \<noteq> round (fl64 (fl64 (real_of_int 3) * fl64 (9 / 10)))
   \<and> num_sample_bbox 3 (fl64 (9 / 10)) = 2
   \<and> round (fl64 (fl64 (real_of_int 3) * fl64 (9 / 10))) = (3 :: int)
   \<and> round (real_of_int 3 * (9 / 10)) = (3 :: int)
   \<and> weighted_sampling
        [(''object_mask'', Field2 3 3 (\<lambda>i j. if i = 1 \<and> j = 1 then 1 else 0))]
        (3, 3) 3 (fl64 (9 / 10)) (\<lambda>n. 0) 0
      = (Inr ([(''object_mask'', Sampled1 [1, 1, 0])], [2]), 6)"
  by (intro conjI; code_simp)

text \<open>
  C5, amended. Sampler split and output counts, for every call of
  \<^verbatim>\<open>weighted_sampling\<close> (arrays and image sizes below \<open>2 ^ 31\<close> on each axis, the
  generator returning doubles of \<open>[0, 1)\<close>). The call raises \<^verbatim>\<open>KeyError\<close> when
  the input has no \<^verbatim>\<open>object_mask\<close> field, and \<^verbatim>\<open>ValueError\<close> when the mask is
  empty or has three dimensions or one of the two counts is negative. In every
  other call exactly \<open>num_sample\<close> coordinates are drawn, as follows.

  \<^item> The first \<open>n_bbox = int(num_sample * bbox_ratio)\<close> of them are drawn
    uniformly within the bounding box of the mask: \<open>n_bbox\<close> is the
    double-precision product truncated toward zero, and the \<open>i\<close>-th coordinate
    is the image of its own two fresh draws of the generator, numbers
    \<open>2 * i\<close> and \<open>2 * i + 1\<close> after the position at the call, under the map
    \<open>u * (max - min) + min\<close> of each axis, evaluated in double precision; it
    lies in \<open>[min, max]\<close>.
  \<^item> The remaining \<open>num_sample - n_bbox\<close> are drawn uniformly over the full
    image extent: the \<open>i\<close>-th coordinate is the image of its own two fresh
    draws under the map \<open>u * (img_size - 1)\<close> of each axis, and lies between
    \<open>0\<close> and \<open>img_size - 1\<close>.
  \<^item> The call uses \<open>2 * num_sample\<close> draws of the generator.
  \<^item> The outcome of the call is that of the interpolation of the fields at
    these coordinates. It raises \<^verbatim>\<open>IndexError\<close> (a coordinate on the last row
    or column of a field) or \<^verbatim>\<open>ValueError\<close> (a field with no channel), or the
    call returns; the output then has the keys of the input, in order, and for
    every field exactly \<open>num_sample\<close> values, with the channel dimension of
    the field preserved.

  Each coordinate being the affine image of a draw of its own, the coordinates
  are distributed as the draws are: independent and uniform over the box,
  respectively over the image extent, when the generator is uniform over
  \<open>[0, 1)\<close>, up to the rounding of the product and of the sum.
\<close>

theorem sampler_counts:
  assumes g: "\<forall>n. rand_value (g n)"
    and dims: "\<forall>(key, val) \<in> set data.
                 fst (field_shape val) < 2 ^ 31 \<and> snd (field_shape val) < 2 ^ 31"
    and img: "\<bar>fst img_size\<bar> < 2 ^ 31" "\<bar>snd img_size\<bar> < 2 ^ 31"
  shows "(map_of data ''object_mask'' = None
          \<and> weighted_sampling data img_size num_sample bbox_ratio g pos = (Inl KeyError, pos))
       \<or> (\<exists>m. map_of data ''object_mask'' = Some m
            \<and> (mask_where m = []
               \<or> py_int (fl64 (fl64 (real_of_int num_sample) * bbox_ratio)) < 0
               \<or> \<not> is_2d m
               \<or> num_sample < py_int (fl64 (fl64 (real_of_int num_sample) * bbox_ratio)))
            \<and> fst (weighted_sampling data img_size num_sample bbox_ratio g pos) = Inl ValueError)
       \<or> (\<exists>m n_bbox indices.
            map_of data ''object_mask'' = Some m \<and> mask_where m \<noteq> [] \<and> is_2d m
          \<and> n_bbox = py_int (fl64 (fl64 (real_of_int num_sample) * bbox_ratio))
          \<and> 0 \<le> n_bbox \<and> n_bbox \<le> num_sample
          \<and> real_of_int n_bbox \<le> \<bar>fl64 (fl64 (real_of_int num_sample) * bbox_ratio)\<bar>
          \<and> \<bar>fl64 (fl64 (real_of_int num_sample) * bbox_ratio)\<bar> < real_of_int n_bbox + 1
          \<and> length indices = nat num_sample
          \<and> (\<forall>i<nat n_bbox.
                indices ! i =
                  (fl64 (fl64 (g (pos + 2 * i)
                               * fl64 (real (fst (bbox_max (mask_where m)))
                                       - real (fst (bbox_min (mask_where m)))))
                         + fl64 (real (fst (bbox_min (mask_where m))))),
                   fl64 (fl64 (g (pos + 2 * i + 1)
                               * fl64 (real (snd (bbox_max (mask_where m)))
                                       - real (snd (bbox_min (mask_where m)))))
                         + fl64 (real (snd (bbox_min (mask_where m))))))
              \<and> real (fst (bbox_min (mask_where m))) \<le> fst (indices ! i)
              \<and> fst (indices ! i) \<le> real (fst (bbox_max (mask_where m)))
              \<and> real (snd (bbox_min (mask_where m))) \<le> snd (indices ! i)
              \<and> snd (indices ! i) \<le> real (snd (bbox_max (mask_where m))))
          \<and> (\<forall>i. nat n_bbox \<le> i \<and> i < nat num_sample \<longrightarrow>
                indices ! i =
                  (fl64 (g (pos + 2 * i) * fl64 (real_of_int (fst img_size - 1))),
                   fl64 (g (pos + 2 * i + 1) * fl64 (real_of_int (snd img_size - 1))))
              \<and> real_of_int (min 0 (fst img_size - 1)) \<le> fst (indices ! i)
              \<and> fst (indices ! i) \<le> real_of_int (max 0 (fst img_size - 1))
              \<and> real_of_int (min 0 (snd img_size - 1)) \<le> snd (indices ! i)
              \<and> snd (indices ! i) \<le> real_of_int (max 0 (snd img_size - 1)))
          \<and> snd (weighted_sampling data img_size num_sample bbox_ratio g pos) = pos + 2 * nat num_sample
          \<and> ((\<exists>e. sample_all indices data = Inl e
                   \<and> fst (weighted_sampling data img_size num_sample bbox_ratio g pos) = Inl e
                   \<and> (e = IndexError \<or> e = ValueError))
             \<or> (\<exists>output index_outside.
                   fst (weighted_sampling data img_size num_sample bbox_ratio g pos) = Inr (output, index_outside)
                 \<and> sample_all indices data = Inr output
                 \<and> map fst output = map fst data
                 \<and> (\<forall>i<length data.
                       sampled_rows (snd (output ! i)) = nat num_sample
                     \<and> channels_preserved (snd (data ! i)) (snd (output ! i))))))"
proof (cases "map_of data ''object_mask''")
  case None
  then show ?thesis
    by (simp add: weighted_sampling_no_mask)
next
  case (Some m)
  let ?call = "weighted_sampling data img_size num_sample bbox_ratio g pos"
  let ?nb = "num_sample_bbox num_sample bbox_ratio"
  let ?bmin = "bbox_min (mask_where m)" and ?bmax = "bbox_max (mask_where m)"
  have nbdef: "?nb = py_int (fl64 (fl64 (real_of_int num_sample) * bbox_ratio))"
    by (simp add: num_sample_bbox_def)
  show ?thesis
  proof (cases "mask_where m \<noteq> [] \<and> 0 \<le> ?nb \<and> is_2d m \<and> 0 \<le> num_sample - ?nb")
    case False
    then consider "mask_where m = []"
      | "mask_where m \<noteq> []" "?nb < 0"
      | "mask_where m \<noteq> []" "0 \<le> ?nb" "\<not> is_2d m"
      | "mask_where m \<noteq> []" "0 \<le> ?nb" "is_2d m" "num_sample - ?nb < 0"
      by linarith
    then have ve: "fst ?call = Inl ValueError"
    proof cases
      case 1
      then show ?thesis
        by (simp add: weighted_sampling_empty [OF Some])
    next
      case 2
      then show ?thesis
        by (simp add: weighted_sampling_negative_bbox [OF Some])
    next
      case 3
      then show ?thesis
        by (simp add: weighted_sampling_mask3 [OF Some])
    next
      case 4
      then show ?thesis
        by (simp add: weighted_sampling_negative_uniform [OF Some])
    qed
    have cond: "mask_where m = []
               \<or> py_int (fl64 (fl64 (real_of_int num_sample) * bbox_ratio)) < 0
               \<or> \<not> is_2d m
               \<or> num_sample < py_int (fl64 (fl64 (real_of_int num_sample) * bbox_ratio))"
      using False unfolding nbdef by linarith
    have "(\<exists>m. map_of data ''object_mask'' = Some m
            \<and> (mask_where m = []
               \<or> py_int (fl64 (fl64 (real_of_int num_sample) * bbox_ratio)) < 0
               \<or> \<not> is_2d m
               \<or> num_sample < py_int (fl64 (fl64 (real_of_int num_sample) * bbox_ratio)))
            \<and> fst ?call = Inl ValueError)"
      using Some cond ve by (intro exI [of _ m] conjI)
    then show ?thesis
      by (intro disjI2 disjI1)
  next
    case True
    then have ne: "mask_where m \<noteq> []" and nb: "0 \<le> ?nb" and d2: "is_2d m"
      and nu: "0 \<le> num_sample - ?nb"
      by simp_all
    let ?sb = "samples_bbox (rand2 g pos (nat ?nb)) ?bmin ?bmax"
    let ?su = "samples_uniform (rand2 g (pos + 2 * nat ?nb) (nat (num_sample - ?nb))) img_size"
    let ?ix = "?sb @ ?su"
    note call = weighted_sampling_samples [OF Some ne nb d2 nu, of img_size g pos]
    have trunc: "real_of_int ?nb \<le> \<bar>fl64 (fl64 (real_of_int num_sample) * bbox_ratio)\<bar>
             \<and> \<bar>fl64 (fl64 (real_of_int num_sample) * bbox_ratio)\<bar> < real_of_int ?nb + 1"
      using py_int_truncates [of "fl64 (fl64 (real_of_int num_sample) * bbox_ratio)"] nb
      unfolding num_sample_bbox_def by simp
    have lsb: "length ?sb = nat ?nb"
      by (simp add: length_samples_bbox length_rand2)
    have lsu: "length ?su = nat (num_sample - ?nb)"
      by (simp add: length_samples_uniform length_rand2)
    have total: "length ?ix = nat num_sample"
      using nb nu lsb lsu by simp
    have gv: "0 \<le> g n" "g n \<le> 1" for n
      using rand_value_bounds(1,2) [of "g n"] g by simp_all
    have m_in: "(''object_mask'', m) \<in> set data"
      using Some by (rule map_of_SomeD)
    have hi: "fst ?bmax < 2 ^ 53" "snd ?bmax < 2 ^ 53"
    proof -
      have "fst (field_shape m) < 2 ^ 31" "snd (field_shape m) < 2 ^ 31"
        using dims m_in by auto
      then have "fst ?bmax < 2 ^ 31" "snd ?bmax < 2 ^ 31"
        using bbox_max_in_shape [OF ne] by linarith+
      then show "fst ?bmax < 2 ^ 53" "snd ?bmax < 2 ^ 53"
        by simp_all
    qed
    have im: "\<bar>fst img_size - 1\<bar> < 2 ^ 53" "\<bar>snd img_size - 1\<bar> < 2 ^ 53"
      using img by (simp_all add: abs_if split: if_splits)
    have box: "?ix ! i =
                  (fl64 (fl64 (g (pos + 2 * i) * fl64 (real (fst ?bmax) - real (fst ?bmin)))
                         + fl64 (real (fst ?bmin))),
                   fl64 (fl64 (g (pos + 2 * i + 1) * fl64 (real (snd ?bmax) - real (snd ?bmin)))
                         + fl64 (real (snd ?bmin))))
              \<and> real (fst ?bmin) \<le> fst (?ix ! i)
              \<and> fst (?ix ! i) \<le> real (fst ?bmax)
              \<and> real (snd ?bmin) \<le> snd (?ix ! i)
              \<and> snd (?ix ! i) \<le> real (snd ?bmax)"
      if i: "i < nat ?nb" for i
    proof -
      have "?ix ! i = ?sb ! i"
        using i lsb by (simp add: nth_append)
      then have eq: "?ix ! i =
                  (fl64 (fl64 (g (pos + 2 * i) * fl64 (real (fst ?bmax) - real (fst ?bmin)))
                         + fl64 (real (fst ?bmin))),
                   fl64 (fl64 (g (pos + 2 * i + 1) * fl64 (real (snd ?bmax) - real (snd ?bmin)))
                         + fl64 (real (snd ?bmin))))"
        by (simp only: nth_samples_bbox [OF i])
      show ?thesis
        unfolding eq fst_conv snd_conv
        using bbox_axis_range [OF gv bbox_min_le_max(1) [OF ne] hi(1), of "pos + 2 * i"]
              bbox_axis_range [OF gv bbox_min_le_max(2) [OF ne] hi(2), of "pos + 2 * i + 1"]
        by simp
    qed
    have uni: "?ix ! i =
                  (fl64 (g (pos + 2 * i) * fl64 (real_of_int (fst img_size - 1))),
                   fl64 (g (pos + 2 * i + 1) * fl64 (real_of_int (snd img_size - 1))))
              \<and> real_of_int (min 0 (fst img_size - 1)) \<le> fst (?ix ! i)
              \<and> fst (?ix ! i) \<le> real_of_int (max 0 (fst img_size - 1))
              \<and> real_of_int (min 0 (snd img_size - 1)) \<le> snd (?ix ! i)
              \<and> snd (?ix ! i) \<le> real_of_int (max 0 (snd img_size - 1))"
      if i: "nat ?nb \<le> i \<and> i < nat num_sample" for i
    proof -
      have j: "i - nat ?nb < nat (num_sample - ?nb)"
        using i nb nu by linarith
      have p: "pos + 2 * nat ?nb + 2 * (i - nat ?nb) = pos + 2 * i"
        using i by linarith
      have "?ix ! i = ?su ! (i - nat ?nb)"
        using i lsb by (simp add: nth_append)
      then have eq: "?ix ! i =
                  (fl64 (g (pos + 2 * i) * fl64 (real_of_int (fst img_size - 1))),
                   fl64 (g (pos + 2 * i + 1) * fl64 (real_of_int (snd img_size - 1))))"
        by (simp only: nth_samples_uniform [OF j] p)
      show ?thesis
        unfolding eq fst_conv snd_conv
        using uniform_axis_between [OF gv im(1), of "pos + 2 * i"]
              uniform_axis_between [OF gv im(2), of "pos + 2 * i + 1"]
        by simp
    qed
    have cnt: "2 * nat ?nb + 2 * nat (num_sample - ?nb) = 2 * nat num_sample"
      using nb nu by linarith
    have pos': "snd ?call = pos + 2 * nat num_sample"
      unfolding call using cnt by (simp split: sum.splits)
    have rest: "(\<exists>e. sample_all ?ix data = Inl e
                   \<and> fst ?call = Inl e
                   \<and> (e = IndexError \<or> e = ValueError))
             \<or> (\<exists>output index_outside.
                   fst ?call = Inr (output, index_outside)
                 \<and> sample_all ?ix data = Inr output
                 \<and> map fst output = map fst data
                 \<and> (\<forall>i<length data.
                       sampled_rows (snd (output ! i)) = nat num_sample
                     \<and> channels_preserved (snd (data ! i)) (snd (output ! i))))"
    proof (cases "sample_all ?ix data")
      case (Inl e)
      then have "fst ?call = Inl e"
        unfolding call by simp
      then show ?thesis
        using sample_all_error [OF Inl] Inl by blast
    next
      case (Inr out)
      have keys: "map fst out = map fst data"
        by (rule sample_all_Inr(1) [OF Inr])
      have rows: "\<forall>i<length data.
                       sampled_rows (snd (out ! i)) = nat num_sample
                     \<and> channels_preserved (snd (data ! i)) (snd (out ! i))"
        using sample_all_Inr(2) [OF Inr] sample_field_rows total by metis
      have "\<exists>index_outside. fst ?call = Inr (out, index_outside)"
        unfolding call Inr by simp
      then show ?thesis
        using Inr keys rows by blast
    qed
    have nun: "?nb \<le> num_sample"
      using nu by simp
    have "(\<exists>m n_bbox indices.
            map_of data ''object_mask'' = Some m \<and> mask_where m \<noteq> [] \<and> is_2d m
          \<and> n_bbox = py_int (fl64 (fl64 (real_of_int num_sample) * bbox_ratio))
          \<and> 0 \<le> n_bbox \<and> n_bbox \<le> num_sample
          \<and> real_of_int n_bbox \<le> \<bar>fl64 (fl64 (real_of_int num_sample) * bbox_ratio)\<bar>
          \<and> \<bar>fl64 (fl64 (real_of_int num_sample) * bbox_ratio)\<bar> < real_of_int n_bbox + 1
          \<and> length indices = nat num_sample
          \<and> (\<forall>i<nat n_bbox.
                indices ! i =
                  (fl64 (fl64 (g (pos + 2 * i)
                               * fl64 (real (fst (bbox_max (mask_where m)))
                                       - real (fst (bbox_min (mask_where m)))))
                         + fl64 (real (fst (bbox_min (mask_where m))))),
                   fl64 (fl64 (g (pos + 2 * i + 1)
                               * fl64 (real (snd (bbox_max (mask_where m)))
                                       - real (snd (bbox_min (mask_where m)))))
                         + fl64 (real (snd (bbox_min (mask_where m))))))
              \<and> real (fst (bbox_min (mask_where m))) \<le> fst (indices ! i)
              \<and> fst (indices ! i) \<le> real (fst (bbox_max (mask_where m)))
              \<and> real (snd (bbox_min (mask_where m))) \<le> snd (indices ! i)
              \<and> snd (indices ! i) \<le> real (snd (bbox_max (mask_where m))))
          \<and> (\<forall>i. nat n_bbox \<le> i \<and> i < nat num_sample \<longrightarrow>
                indices ! i =
                  (fl64 (g (pos + 2 * i) * fl64 (real_of_int (fst img_size - 1))),
                   fl64 (g (pos + 2 * i + 1) * fl64 (real_of_int (snd img_size - 1))))
              \<and> real_of_int (min 0 (fst img_size - 1)) \<le> fst (indices ! i)
              \<and> fst (indices ! i) \<le> real_of_int (max 0 (fst img_size - 1))
              \<and> real_of_int (min 0 (snd img_size - 1)) \<le> snd (indices ! i)
              \<and> snd (indices ! i) \<le> real_of_int (max 0 (snd img_size - 1)))
          \<and> snd (?call) = pos + 2 * nat num_sample
          \<and> ((\<exists>e. sample_all indices data = Inl e
                   \<and> fst (?call) = Inl e
                   \<and> (e = IndexError \<or> e = ValueError))
             \<or> (\<exists>output index_outside.
                   fst (?call) = Inr (output, index_outside)
                 \<and> sample_all indices data = Inr output
                 \<and> map fst output = map fst data
                 \<and> (\<forall>i<length data.
                       sampled_rows (snd (output ! i)) = nat num_sample
                     \<and> channels_preserved (snd (data ! i)) (snd (output ! i))))))"
      apply (rule exI [of _ m])
      apply (rule exI [of _ ?nb])
      apply (rule exI [of _ ?ix])
      apply (intro conjI)
      apply (rule Some)
      apply (rule ne)
      apply (rule d2)
      apply (rule nbdef)
      apply (rule nb)
      apply (rule nun)
      apply (rule conjunct1 [OF trunc])
      apply (rule conjunct2 [OF trunc])
      apply (rule total)
      subgoal using box by blast
      subgoal using uni by blast
      apply (rule pos')
      apply (rule rest)
      done
    then show ?thesis
      by (intro disjI2)
  qed
qed

theorem sampler_counts_witness:
  "\<exists>m n_bbox indices out.
      map_of [(''object_mask'', Field2 3 3 (\<lambda>i j. if i = 1 \<and> j = 1 then 1 else 0)),
              (''rgb'', Field3 3 3 2 (\<lambda>i j k. real (i + j + k)))] ''object_mask'' = Some m
    \<and> n_bbox = py_int (fl64 (fl64 (real_of_int 3) * fl64 (9 / 10))) \<and> n_bbox = 2
    \<and> length indices = 3
    \<and> indices ! 0 = (1, 1) \<and> indices ! 1 = (1, 1) \<and> indices ! 2 = (1, 1)
    \<and> weighted_sampling
         [(''object_mask'', Field2 3 3 (\<lambda>i j. if i = 1 \<and> j = 1 then 1 else 0)),
          (''rgb'', Field3 3 3 2 (\<lambda>i j k. real (i + j + k)))]
         (3, 3) 3 (fl64 (9 / 10)) (\<lambda>n. 1 / 2) 0 = (Inr (out, []), 6)
    \<and> sample_all indices
         [(''object_mask'', Field2 3 3 (\<lambda>i j. if i = 1 \<and> j = 1 then 1 else 0)),
          (''rgb'', Field3 3 3 2 (\<lambda>i j k. real (i + j + k)))] = Inr out
    \<and> map fst out = [''object_mask'', ''rgb'']
    \<and> sampled_rows (snd (out ! 0)) = 3
    \<and> sampled_rows (snd (out ! 1)) = 3
    \<and> channels_preserved (Field3 3 3 2 (\<lambda>i j k. real (i + j + k))) (snd (out ! 1))"
proof -
  let ?M = "Field2 3 3 (\<lambda>i j. if i = 1 \<and> j = 1 then 1 else 0)"
  let ?D = "[(''object_mask'', ?M),
             (''rgb'', Field3 3 3 2 (\<lambda>i j k. real (i + j + k)))]"
  let ?g = "\<lambda>n::nat. 1 / 2 :: real"
  let ?out = "[(''object_mask'', Sampled1 [1, 1, 1]),
               (''rgb'', SampledC [[2, 3], [2, 3], [2, 3]])]"
  let ?call = "weighted_sampling ?D (3, 3) 3 (fl64 (9 / 10)) ?g 0"
  have ret: "?call = (Inr (?out, []), 6)"
    by code_simp
  have half: "rand_value (1 / 2)"
    by code_simp
  have g: "\<forall>n. rand_value (?g n)"
    using half by simp
  have dims: "\<forall>(key, val) \<in> set ?D.
                 fst (field_shape val) < 2 ^ 31 \<and> snd (field_shape val) < 2 ^ 31"
    by simp
  have img: "\<bar>fst (3 :: int, 3 :: int)\<bar> < 2 ^ 31" "\<bar>snd (3 :: int, 3 :: int)\<bar> < 2 ^ 31"
    by simp_all
  have k: "py_int (fl64 (fl64 (real_of_int 3) * fl64 (9 / 10))) = 2"
    by code_simp
  have e_box: "(fl64 (fl64 (1 / 2 * fl64 (real (fst (bbox_max (mask_where ?M)))
                                       - real (fst (bbox_min (mask_where ?M)))))
                     + fl64 (real (fst (bbox_min (mask_where ?M))))),
                fl64 (fl64 (1 / 2 * fl64 (real (snd (bbox_max (mask_where ?M)))
                                       - real (snd (bbox_min (mask_where ?M)))))
                     + fl64 (real (snd (bbox_min (mask_where ?M)))))) = (1 :: real, 1 :: real)"
    by code_simp
  have e_uni: "(fl64 (1 / 2 * fl64 (real_of_int (fst (3 :: int, 3 :: int) - 1))),
                fl64 (1 / 2 * fl64 (real_of_int (snd (3 :: int, 3 :: int) - 1))))
               = (1 :: real, 1 :: real)"
    by code_simp
  have nk: "?call \<noteq> (Inl KeyError, 0)" "\<forall>e. fst ?call \<noteq> Inl e"
    unfolding ret by simp_all
  note th = sampler_counts [where g = ?g and data = ?D and img_size = "(3, 3)"
      and num_sample = 3 and bbox_ratio = "fl64 (9 / 10)" and pos = 0, OF g dims img]
  from th nk obtain m n_bbox indices where
      m: "map_of ?D ''object_mask'' = Some m"
    and nb: "n_bbox = py_int (fl64 (fl64 (real_of_int 3) * fl64 (9 / 10)))"
    and len: "length indices = nat 3"
    and box: "\<forall>i<nat n_bbox.
                indices ! i =
                  (fl64 (fl64 (1 / 2
                               * fl64 (real (fst (bbox_max (mask_where m)))
                                       - real (fst (bbox_min (mask_where m)))))
                         + fl64 (real (fst (bbox_min (mask_where m))))),
                   fl64 (fl64 (1 / 2
                               * fl64 (real (snd (bbox_max (mask_where m)))
                                       - real (snd (bbox_min (mask_where m)))))
                         + fl64 (real (snd (bbox_min (mask_where m))))))
              \<and> real (fst (bbox_min (mask_where m))) \<le> fst (indices ! i)
              \<and> fst (indices ! i) \<le> real (fst (bbox_max (mask_where m)))
              \<and> real (snd (bbox_min (mask_where m))) \<le> snd (indices ! i)
              \<and> snd (indices ! i) \<le> real (snd (bbox_max (mask_where m)))"
    and uni: "\<forall>i. nat n_bbox \<le> i \<and> i < nat 3 \<longrightarrow>
                indices ! i =
                  (fl64 (1 / 2 * fl64 (real_of_int (fst (3 :: int, 3 :: int) - 1))),
                   fl64 (1 / 2 * fl64 (real_of_int (snd (3 :: int, 3 :: int) - 1))))
              \<and> real_of_int (min 0 (fst (3 :: int, 3 :: int) - 1)) \<le> fst (indices ! i)
              \<and> fst (indices ! i) \<le> real_of_int (max 0 (fst (3 :: int, 3 :: int) - 1))
              \<and> real_of_int (min 0 (snd (3 :: int, 3 :: int) - 1)) \<le> snd (indices ! i)
              \<and> snd (indices ! i) \<le> real_of_int (max 0 (snd (3 :: int, 3 :: int) - 1))"
    and res: "(\<exists>e. sample_all indices ?D = Inl e
                   \<and> fst ?call = Inl e
                   \<and> (e = IndexError \<or> e = ValueError))
             \<or> (\<exists>output index_outside.
                   fst ?call = Inr (output, index_outside)
                 \<and> sample_all indices ?D = Inr output
                 \<and> map fst output = map fst ?D
                 \<and> (\<forall>i<length ?D.
                       sampled_rows (snd (output ! i)) = nat 3
                     \<and> channels_preserved (snd (?D ! i)) (snd (output ! i))))"
    by blast
  from res nk(2) obtain out index_outside where
      r: "fst ?call = Inr (out, index_outside)"
    and sa: "sample_all indices ?D = Inr out"
    and keys: "map fst out = map fst ?D"
    and rows: "\<forall>i<length ?D.
                       sampled_rows (snd (out ! i)) = nat 3
                     \<and> channels_preserved (snd (?D ! i)) (snd (out ! i))"
    by blast
  have oo: "out = ?out" "index_outside = []"
    using r unfolding ret by simp_all
  have mM: "m = ?M"
    using m by simp
  have nb2: "n_bbox = 2"
    using nb k by simp
  have i0: "indices ! 0 = (1, 1)"
    using box [rule_format, of 0] e_box unfolding mM nb2 by simp
  have i1: "indices ! 1 = (1, 1)"
    using box [rule_format, of 1] e_box unfolding mM nb2 by simp
  have i2: "indices ! 2 = (1, 1)"
    using uni [rule_format, of 2] e_uni unfolding nb2 by simp
  have l3: "length indices = 3"
    using len by simp
  have c: "?call = (Inr (out, []), 6)"
    unfolding ret oo by (rule refl)
  have f: "map fst out = [''object_mask'', ''rgb'']"
    using keys by simp
  have r0: "sampled_rows (snd (out ! 0)) = 3"
    using rows [rule_format, of 0] by simp
  have r1: "sampled_rows (snd (out ! 1)) = 3"
    "channels_preserved (Field3 3 3 2 (\<lambda>i j k. real (i + j + k))) (snd (out ! 1))"
    using rows [rule_format, of 1] by simp_all
  have all: "map_of ?D ''object_mask'' = Some m
    \<and> n_bbox = py_int (fl64 (fl64 (real_of_int 3) * fl64 (9 / 10))) \<and> n_bbox = 2
    \<and> length indices = 3
    \<and> indices ! 0 = (1, 1) \<and> indices ! 1 = (1, 1) \<and> indices ! 2 = (1, 1)
    \<and> ?call = (Inr (out, []), 6)
    \<and> sample_all indices ?D = Inr out
    \<and> map fst out = [''object_mask'', ''rgb'']
    \<and> sampled_rows (snd (out ! 0)) = 3
    \<and> sampled_rows (snd (out ! 1)) = 3
    \<and> channels_preserved (Field3 3 3 2 (\<lambda>i j k. real (i + j + k))) (snd (out ! 1))"
    using m nb nb2 l3 i0 i1 i2 c sa f r0 r1 by (intro conjI) (simp_all only:)
  show ?thesis
    by (rule exI [of _ m], rule exI [of _ n_bbox], rule exI [of _ indices],
        rule exI [of _ out]) (rule all)
qed

end
